theory Spec2Isabelle
  imports Complex_Main "HOL-Library.AList"
begin

section \<open>JavaScript values and the services of the runtime\<close>

text \<open>
  Strings are kept as their UTF-8 bytes, so the bytes of a \<open>Buffer\<close> and the text of a
  JavaScript string share the type \<open>string\<close>.  Values of type \<open>any\<close> (parsed JSON and
  what property access gives on it) are \<open>jsval\<close>.
\<close>

datatype jsval =
    Undefined
  | Null
  | Bool bool
  | Num rat
  | Str string
  | Arr "jsval list"
  | Obj "(string \<times> jsval) list"

datatype error =
    Error string
  | TypeError string
  | SyntaxError string

text \<open>\<open>(error as Error).message\<close>\<close>

fun message :: "error \<Rightarrow> string" where
  "message (Error m) = m"
| "message (TypeError m) = m"
| "message (SyntaxError m) = m"

text \<open>
  \<open>JSON.parse\<close>, \<open>JSON.stringify\<close> and the conversion of a number, array or object
  to a string belong to the JavaScript runtime; every definition below takes them as
  a parameter.
\<close>

record runtime =
  JSON_parse :: "string \<Rightarrow> error + jsval"
  JSON_stringify :: "jsval \<Rightarrow> string"
  String_of :: "jsval \<Rightarrow> string"

text \<open>\<open>String(v)\<close>, as a template literal and the \<open>Error\<close> constructor apply it.\<close>

fun ToString :: "runtime \<Rightarrow> jsval \<Rightarrow> string" where
  "ToString rt (Str s) = s"
| "ToString rt Undefined = ''undefined''"
| "ToString rt Null = ''null''"
| "ToString rt (Bool b) = (if b then ''true'' else ''false'')"
| "ToString rt v = String_of rt v"

definition quoted :: "string \<Rightarrow> string" where
  "quoted k = [CHR 0x27] @ k @ [CHR 0x27]"

text \<open>
  Property access \<open>v.k\<close> for the names the code reads (\<open>id\<close>, \<open>error\<close>,
  \<open>message\<close>, \<open>result\<close>, \<open>tools\<close>, \<open>content\<close>): it throws on \<open>undefined\<close>
  and \<open>null\<close>, looks the key up in an object, and is \<open>undefined\<close> on every other
  value.
\<close>

fun get_prop :: "jsval \<Rightarrow> string \<Rightarrow> error + jsval" where
  "get_prop Undefined k =
     Inl (TypeError (''Cannot read properties of undefined (reading '' @ quoted k @ '')''))"
| "get_prop Null k =
     Inl (TypeError (''Cannot read properties of null (reading '' @ quoted k @ '')''))"
| "get_prop (Obj kvs) k = Inr (case map_of kvs k of None \<Rightarrow> Undefined | Some v \<Rightarrow> v)"
| "get_prop v k = Inr Undefined"

fun truthy :: "jsval \<Rightarrow> bool" where
  "truthy Undefined = False"
| "truthy Null = False"
| "truthy (Bool b) = b"
| "truthy (Num q) = (q \<noteq> 0)"
| "truthy (Str s) = (s \<noteq> [])"
| "truthy v = True"

text \<open>
  The key of a \<open>Map<number, _>\<close> that a value denotes: a number equal to a natural
  number denotes it, every other value is no key of the table.
\<close>

fun key_of :: "jsval \<Rightarrow> nat option" where
  "key_of (Num q) = (if 0 \<le> q \<and> q = of_int \<lfloor>q\<rfloor> then Some (nat \<lfloor>q\<rfloor>) else None)"
| "key_of v = None"

fun digit :: "nat \<Rightarrow> char" where
  "digit n = char_of (48 + n)"

fun show_nat :: "nat \<Rightarrow> string" where
  "show_nat n = (if n < 10 then [digit n] else show_nat (n div 10) @ [digit (n mod 10)])"

declare show_nat.simps [simp del]

definition show_int :: "int \<Rightarrow> string" where
  "show_int i = (if i < 0 then CHR ''-'' # show_nat (nat (- i)) else show_nat (nat i))"

subsection \<open>\<open>Buffer.toString()\<close>: UTF-8 decoding with replacement\<close>

definition REPLACEMENT :: string where
  "REPLACEMENT = [CHR 0xEF, CHR 0xBF, CHR 0xBD]"

text \<open>
  The decoder reads \<open>need\<close> more continuation bytes in the range \<open>lo..hi\<close>; \<open>acc\<close>
  holds the bytes of the character read so far.  A byte that cannot start or continue a
  character, and a character cut off by the end of the buffer, give U+FFFD.
\<close>

fun utf8_scan :: "nat \<Rightarrow> nat \<Rightarrow> nat \<Rightarrow> string \<Rightarrow> string \<Rightarrow> string" where
  "utf8_scan need lo hi acc [] = (if need = 0 then [] else REPLACEMENT)"
| "utf8_scan need lo hi acc (b # bs) =
     (let n = (of_char b :: nat) in
      if need = 0 then
        (if n \<le> 0x7F then b # utf8_scan 0 0x80 0xBF [] bs
         else if 0xC2 \<le> n \<and> n \<le> 0xDF then utf8_scan 1 0x80 0xBF [b] bs
         else if 0xE0 \<le> n \<and> n \<le> 0xEF then
           utf8_scan 2 (if n = 0xE0 then 0xA0 else 0x80) (if n = 0xED then 0x9F else 0xBF) [b] bs
         else if 0xF0 \<le> n \<and> n \<le> 0xF4 then
           utf8_scan 3 (if n = 0xF0 then 0x90 else 0x80) (if n = 0xF4 then 0x8F else 0xBF) [b] bs
         else REPLACEMENT @ utf8_scan 0 0x80 0xBF [] bs)
      else if n < lo \<or> hi < n then REPLACEMENT @ utf8_scan 0 0x80 0xBF [] (b # bs)
      else if need = 1 then acc @ [b] @ utf8_scan 0 0x80 0xBF [] bs
      else utf8_scan (need - 1) 0x80 0xBF (acc @ [b]) bs)"

definition toString :: "string \<Rightarrow> string" where
  "toString data = utf8_scan 0 0x80 0xBF [] data"

subsection \<open>\<open>String.prototype.split('\n')\<close> and \<open>trim()\<close>\<close>

definition newline :: char where
  "newline = CHR 0x0A"

fun split_nl :: "string \<Rightarrow> string list" where
  "split_nl [] = [[]]"
| "split_nl (c # cs) =
     (if c = newline then [] # split_nl cs
      else (case split_nl cs of
              [] \<Rightarrow> [[c]]
            | piece # pieces \<Rightarrow> (c # piece) # pieces))"

text \<open>
  The number of bytes of the white-space or line-terminator character at the head of
  a string (\<open>0\<close> when the string starts with none): TAB, LF, VT, FF, CR, SP, U+00A0,
  U+1680, U+2000..U+200A, U+2028, U+2029, U+202F, U+205F, U+3000, U+FEFF.
\<close>

fun ws_len :: "nat list \<Rightarrow> nat" where
  "ws_len [] = 0"
| "ws_len (b # r) =
     (if b \<in> {9, 10, 11, 12, 13, 32} then 1
      else if b = 0xC2 \<and> take 1 r = [0xA0] then 2
      else if b = 0xE1 \<and> take 2 r = [0x9A, 0x80] then 3
      else if b = 0xE2 \<and> take 1 r = [0x80] \<and> length r \<ge> 2 \<and>
              ((0x80 \<le> r ! 1 \<and> r ! 1 \<le> 0x8A) \<or> r ! 1 \<in> {0xA8, 0xA9, 0xAF}) then 3
      else if b = 0xE2 \<and> take 2 r = [0x81, 0x9F] then 3
      else if b = 0xE3 \<and> take 2 r = [0x80, 0x80] then 3
      else if b = 0xEF \<and> take 2 r = [0xBB, 0xBF] then 3
      else 0)"

text \<open>\<open>!line.trim()\<close>: the line is empty or white space only.\<close>

function is_blank :: "nat list \<Rightarrow> bool" where
  "is_blank bs =
     (if bs = [] then True
      else if ws_len bs = 0 then False
      else is_blank (drop (ws_len bs) bs))"
  by pat_completeness auto
termination
  by (relation "measure length") auto

declare is_blank.simps [simp del]

definition trim_nonempty :: "string \<Rightarrow> bool" where
  "trim_nonempty line = (\<not> is_blank (map of_char line))"

section \<open>Tool results and the shared \<open>callTool\<close> of BaseMCPConnection\<close>

datatype Status = success | failure

record ToolResult =
  status :: Status
  content :: string
  metadata :: "string option"

datatype log_entry =
    Info string
  | ErrorLog string "error option"
  | ToolCallLog string jsval
  | ToolResultLog string ToolResult

text \<open>
  The \<open>catch\<close> of \<open>BaseMCPConnection.callTool\<close>: the outcome of awaiting
  \<open>callToolImpl\<close> is either the result, or the error it threw, which becomes a result
  of status \<open>'error'\<close> (written \<open>failure\<close> here, \<open>error\<close> being the type of thrown
  values).
\<close>

definition errorResult :: "error \<Rightarrow> ToolResult" where
  "errorResult e =
     \<lparr>status = failure, content = ''Tool execution failed: '' @ message e, metadata = None\<rparr>"

fun callTool_catch :: "error + ToolResult \<Rightarrow> ToolResult" where
  "callTool_catch (Inr result) = result"
| "callTool_catch (Inl e) = errorResult e"

section \<open>StdioMCPConnection\<close>

text \<open>
  What \<open>spawn\<close> returns, as far as the connection looks at it: whether the child has
  its \<open>stdin\<close> and \<open>stdout\<close> streams, and its \<open>killed\<close> flag.
\<close>

record ChildProcess =
  stdin :: bool
  stdout :: bool
  killed :: bool

record request =
  jsonrpc :: string
  req_id :: nat
  req_method :: string
  req_params :: jsval

datatype outcome = Resolved jsval | Rejected error

text \<open>
  A timer set by \<open>setTimeout\<close> in \<open>sendRequest\<close>: the time at which it is due, and
  what its callback closes over (the request and the \<open>reject\<close> of the promise).
\<close>

record timer =
  due :: nat
  for_request :: request
  for_promise :: nat

text \<open>
  The fields of the class (of the configuration only the name: the command and its
  arguments go to \<open>spawn\<close> alone, whose result comes with the \<open>Connect\<close> event
  below), the \<open>buffer\<close> variable of the stdout handler, the lines the connection has
  logged, and what the
  connection does to the world around it: the clock \<open>now\<close> (in milliseconds), the
  requests \<open>written\<close> to the child's stdin with the time of writing, the \<open>timers\<close> not
  yet run, and every call of a promise's \<open>resolve\<close> or \<open>reject\<close> in \<open>settled\<close>.
  The promise created by the \<open>n\<close>-th successful \<open>sendRequest\<close> is promise \<open>n\<close>
  (counting from 0); \<open>pendingRequests\<close> maps a request id to the promise whose
  \<open>resolve\<close> and \<open>reject\<close> it holds.
\<close>

record StdioMCPConnection =
  config_name :: string
  process :: "ChildProcess option"
  messageId :: nat
  pendingRequests :: "nat \<rightharpoonup> nat"
  buffer :: string
  now :: nat
  written :: "(nat \<times> request) list"
  timers :: "timer list"
  settled :: "(nat \<times> outcome) list"
  logger :: "log_entry list"

definition new_StdioMCPConnection :: "string \<Rightarrow> StdioMCPConnection" where
  "new_StdioMCPConnection name =
     \<lparr>config_name = name, process = None, messageId = 0, pendingRequests = Map.empty,
      buffer = [], now = 0, written = [], timers = [], settled = [], logger = []\<rparr>"

definition log_add :: "log_entry \<Rightarrow> StdioMCPConnection \<Rightarrow> StdioMCPConnection" where
  "log_add l st = st\<lparr>logger := logger st @ [l]\<rparr>"

definition settle :: "nat \<Rightarrow> outcome \<Rightarrow> StdioMCPConnection \<Rightarrow> StdioMCPConnection" where
  "settle pr out st = st\<lparr>settled := settled st @ [(pr, out)]\<rparr>"

text \<open>
  \<open>++this.messageId\<close>.  The counter is a JavaScript number, a double: adding one is
  exact below \<open>2^53\<close>, and at \<open>2^53\<close> the sum rounds back to \<open>2^53\<close>, so that from
  there on the counter stays where it is.  (It starts at 0 and so never exceeds
  \<open>2^53\<close>.)
\<close>

definition MAX_EXACT :: nat where
  "MAX_EXACT = 2 ^ 53"

definition nextMessageId :: "StdioMCPConnection \<Rightarrow> nat \<times> StdioMCPConnection" where
  "nextMessageId st =
     (let m = (if messageId st < MAX_EXACT then messageId st + 1 else messageId st)
      in (m, st\<lparr>messageId := m\<rparr>))"

definition isConnected :: "StdioMCPConnection \<Rightarrow> bool" where
  "isConnected st = (case process st of None \<Rightarrow> False | Some p \<Rightarrow> \<not> killed p)"

definition REQUEST_TIMEOUT :: nat where
  "REQUEST_TIMEOUT = 30000"

text \<open>
  \<open>sendRequest\<close> up to the point where it hands its promise back: it throws when there
  is no process (or no stdin), and otherwise registers the promise under the request's
  id, writes the request and sets the timer.
\<close>

definition sendRequest :: "StdioMCPConnection \<Rightarrow> request \<Rightarrow> (error + nat) \<times> StdioMCPConnection" where
  "sendRequest st request =
     (if (case process st of None \<Rightarrow> True | Some p \<Rightarrow> \<not> stdin p)
      then (Inl (Error (''MCP server '' @ config_name st @ '' not connected'')), st)
      else
        (let pr = length (written st) in
         (Inr pr,
          st\<lparr>pendingRequests := (pendingRequests st)(req_id request \<mapsto> pr),
             written := written st @ [(now st, request)],
             timers := timers st @
               [\<lparr>due = now st + REQUEST_TIMEOUT, for_request = request, for_promise = pr\<rparr>]\<rparr>)))"

text \<open>The callback of the timer.\<close>

definition timer_callback :: "StdioMCPConnection \<Rightarrow> timer \<Rightarrow> StdioMCPConnection" where
  "timer_callback st t =
     (if pendingRequests st (req_id (for_request t)) \<noteq> None
      then settle (for_promise t)
             (Rejected (Error (''MCP request timeout: '' @ req_method (for_request t))))
             (st\<lparr>pendingRequests := (pendingRequests st)(req_id (for_request t) := None)\<rparr>)
      else st)"

text \<open>
  The timers phase of the event loop takes the timers that are due, in the order in
  which they were set; each is removed from the timers and its callback is run.
\<close>

definition run_timer :: "StdioMCPConnection \<Rightarrow> timer \<Rightarrow> StdioMCPConnection" where
  "run_timer st t = timer_callback (st\<lparr>timers := remove1 t (timers st)\<rparr>) t"

definition timers_phase :: "StdioMCPConnection \<Rightarrow> StdioMCPConnection" where
  "timers_phase st = foldl run_timer st (filter (\<lambda>t. due t \<le> now st) (timers st))"

text \<open>
  \<open>handleResponse\<close>; the first component is the error it throws, if any (reading
  \<open>message.id\<close> of \<open>null\<close>).
\<close>

definition handleResponse ::
  "runtime \<Rightarrow> StdioMCPConnection \<Rightarrow> jsval \<Rightarrow> error option \<times> StdioMCPConnection" where
  "handleResponse rt st msg =
     (case get_prop msg ''id'' of
        Inl e \<Rightarrow> (Some e, st)
      | Inr mid \<Rightarrow>
          (case (if mid \<noteq> Undefined then key_of mid else None) of
             None \<Rightarrow> (None, st)
           | Some k \<Rightarrow>
               (case pendingRequests st k of
                  None \<Rightarrow> (None, st)
                | Some pr \<Rightarrow>
                    (let st1 = st\<lparr>pendingRequests := (pendingRequests st)(k := None)\<rparr> in
                     case get_prop msg ''error'' of
                       Inl e \<Rightarrow> (Some e, st1)
                     | Inr err \<Rightarrow>
                         if truthy err then
                           (case get_prop err ''message'' of
                              Inl e \<Rightarrow> (Some e, st1)
                            | Inr m \<Rightarrow>
                                (None, settle pr
                                   (Rejected (Error (ToString rt
                                      (if truthy m then m else Str ''MCP request failed''))))
                                   st1))
                         else
                           (case get_prop msg ''result'' of
                              Inl e \<Rightarrow> (Some e, st1)
                            | Inr r \<Rightarrow> (None, settle pr (Resolved r) st1))))))"

text \<open>The body of the loop over the complete lines in the stdout handler.\<close>

definition handle_line :: "runtime \<Rightarrow> StdioMCPConnection \<Rightarrow> string \<Rightarrow> StdioMCPConnection" where
  "handle_line rt st line =
     (if trim_nonempty line then
        (case JSON_parse rt line of
           Inl e \<Rightarrow> log_add (ErrorLog (''Failed to parse MCP response: '' @ line) (Some e)) st
         | Inr msg \<Rightarrow>
             (case handleResponse rt st msg of
                (None, st') \<Rightarrow> st'
              | (Some e, st') \<Rightarrow>
                  log_add (ErrorLog (''Failed to parse MCP response: '' @ line) (Some e)) st'))
      else st)"

text \<open>
  The framing step of the stdout handler: the chunk is decoded and appended to the
  buffer, the buffer is split at newlines, and the last piece is kept.
\<close>

definition frame :: "string \<Rightarrow> string \<Rightarrow> string list \<times> string" where
  "frame buf data =
     (let lines = split_nl (buf @ toString data)
      in (butlast lines, if lines = [] then [] else last lines))"

definition stdout_on_data :: "runtime \<Rightarrow> StdioMCPConnection \<Rightarrow> string \<Rightarrow> StdioMCPConnection" where
  "stdout_on_data rt st data =
     (let (lines, buf) = frame (buffer st) data
      in foldl (handle_line rt) (st\<lparr>buffer := buf\<rparr>) lines)"

definition on_exit :: "StdioMCPConnection \<Rightarrow> int option \<Rightarrow> StdioMCPConnection" where
  "on_exit st code =
     (log_add (Info (''MCP server '' @ config_name st @ '' exited with code '' @
        (case code of None \<Rightarrow> ''null'' | Some c \<Rightarrow> show_int c))) st)\<lparr>process := None\<rparr>"

text \<open>\<open>connect\<close>; its argument is the child that \<open>spawn\<close> returned.\<close>

definition Stdio_connect ::
  "StdioMCPConnection \<Rightarrow> ChildProcess \<Rightarrow> (error + unit) \<times> StdioMCPConnection" where
  "Stdio_connect st child =
     (let st1 = (log_add (Info (''Connecting to stdio MCP server: '' @ config_name st)) st)
                  \<lparr>process := Some child\<rparr>
      in if \<not> stdout child \<or> \<not> stdin child
         then (Inl (Error (''Failed to spawn MCP server process: '' @ config_name st)), st1)
         else (Inr (),
               log_add (Info (''Connected to stdio MCP server: '' @ config_name st))
                 (st1\<lparr>buffer := []\<rparr>)))"

definition Stdio_close :: "StdioMCPConnection \<Rightarrow> StdioMCPConnection" where
  "Stdio_close st =
     (case process st of
        None \<Rightarrow> st
      | Some p \<Rightarrow>
          log_add (Info (''Closed stdio MCP connection: '' @ config_name st))
            (st\<lparr>process := None\<rparr>))"

text \<open>
  An \<open>async\<close> method either returns without waiting, or waits for a promise; its
  \<open>_resume\<close> function is the rest of the method, run when the promise is settled.
\<close>

datatype 'a async = Returned 'a | Awaiting nat

definition Stdio_listTools_start ::
  "StdioMCPConnection \<Rightarrow> (error + nat) \<times> StdioMCPConnection" where
  "Stdio_listTools_start st =
     (let (i, st1) = nextMessageId st
      in sendRequest st1
           \<lparr>jsonrpc = ''2.0'', req_id = i, req_method = ''tools/list'', req_params = Obj []\<rparr>)"

definition Stdio_listTools_resume :: "outcome \<Rightarrow> error + jsval" where
  "Stdio_listTools_resume out =
     (case out of
        Rejected e \<Rightarrow> Inl e
      | Resolved response \<Rightarrow>
          (case get_prop response ''tools'' of
             Inl e \<Rightarrow> Inl e
           | Inr t \<Rightarrow> Inr (if truthy t then t else Arr [])))"

definition Stdio_callToolImpl_start ::
  "StdioMCPConnection \<Rightarrow> string \<Rightarrow> jsval \<Rightarrow> (error + nat) \<times> StdioMCPConnection" where
  "Stdio_callToolImpl_start st toolName args =
     (let (i, st1) = nextMessageId st
      in sendRequest st1
           \<lparr>jsonrpc = ''2.0'', req_id = i, req_method = ''tools/call'',
            req_params = Obj [(''name'', Str toolName), (''arguments'', args)]\<rparr>)"

definition Stdio_callToolImpl_resume ::
  "runtime \<Rightarrow> StdioMCPConnection \<Rightarrow> outcome \<Rightarrow> error + ToolResult" where
  "Stdio_callToolImpl_resume rt st out =
     (case out of
        Rejected e \<Rightarrow> Inl e
      | Resolved response \<Rightarrow>
          (case get_prop response ''content'' of
             Inl e \<Rightarrow> Inl e
           | Inr c \<Rightarrow>
               Inr \<lparr>status = success, content = JSON_stringify rt c,
                    metadata = Some (config_name st)\<rparr>))"

text \<open>\<open>BaseMCPConnection.callTool\<close> on a stdio connection.\<close>

definition Stdio_callTool_start ::
  "StdioMCPConnection \<Rightarrow> string \<Rightarrow> jsval \<Rightarrow> ToolResult async \<times> StdioMCPConnection" where
  "Stdio_callTool_start st toolName args =
     (case Stdio_callToolImpl_start (log_add (ToolCallLog toolName args) st) toolName args of
        (Inl e, st1) \<Rightarrow>
          (Returned (callTool_catch (Inl e)),
           log_add (ToolResultLog toolName (callTool_catch (Inl e))) st1)
      | (Inr pr, st1) \<Rightarrow> (Awaiting pr, st1))"

definition Stdio_callTool_resume ::
  "runtime \<Rightarrow> StdioMCPConnection \<Rightarrow> string \<Rightarrow> outcome \<Rightarrow> ToolResult \<times> StdioMCPConnection" where
  "Stdio_callTool_resume rt st toolName out =
     (let r = callTool_catch (Stdio_callToolImpl_resume rt st out)
      in (r, log_add (ToolResultLog toolName r) st))"

subsection \<open>The connection in the event loop\<close>

text \<open>
  What can happen to a connection, one event at a time: the handlers that
  \<open>connect\<close> installs are run by the child's events, the passing of time makes timers
  due, and the client calls the methods.
\<close>

datatype event =
    Connect ChildProcess
  | StdoutData string
  | StderrData string
  | ProcessError error
  | Exit "int option"
  | Elapse nat
  | TimersPhase
  | ListTools
  | CallTool string jsval
  | Close

fun step :: "runtime \<Rightarrow> StdioMCPConnection \<Rightarrow> event \<Rightarrow> StdioMCPConnection" where
  "step rt st (Connect child) = snd (Stdio_connect st child)"
| "step rt st (StdoutData data) = stdout_on_data rt st data"
| "step rt st (StderrData data) =
     log_add (ErrorLog (''MCP server '' @ config_name st @ '' stderr: '' @ toString data) None) st"
| "step rt st (ProcessError e) =
     log_add (ErrorLog (''MCP server '' @ config_name st @ '' process error'') (Some e)) st"
| "step rt st (Exit code) = on_exit st code"
| "step rt st (Elapse d) = st\<lparr>now := now st + d\<rparr>"
| "step rt st TimersPhase = timers_phase st"
| "step rt st ListTools = snd (Stdio_listTools_start st)"
| "step rt st (CallTool toolName args) = snd (Stdio_callTool_start st toolName args)"
| "step rt st Close = Stdio_close st"

definition run :: "runtime \<Rightarrow> StdioMCPConnection \<Rightarrow> event list \<Rightarrow> StdioMCPConnection" where
  "run rt st evs = foldl (step rt) st evs"

section \<open>HttpMCPConnection\<close>

record HttpMCPConfig =
  http_name :: string
  http_url :: string
  http_headers :: "(string \<times> string) list option"

text \<open>
  The network is the function \<open>fetch\<close>: for a URL and the request it either rejects,
  or resolves to a response, of which the code reads \<open>ok\<close>, \<open>status\<close>, \<open>text()\<close> and
  \<open>json()\<close>.
\<close>

record fetch_init =
  fetch_method :: string
  fetch_headers :: "(string \<times> string) list"
  fetch_body :: string

record Response =
  ok :: bool
  http_status :: nat
  body_text :: string
  body_json :: "error + jsval"

type_synonym fetch = "string \<Rightarrow> fetch_init \<Rightarrow> error + Response"

definition merged_headers :: "HttpMCPConfig \<Rightarrow> (string \<times> string) list" where
  "merged_headers cfg =
     (case http_headers cfg of
        None \<Rightarrow> [(''Content-Type'', ''application/json'')]
      | Some hs \<Rightarrow>
          foldl (\<lambda>acc kv. AList.update (fst kv) (snd kv) acc)
            [(''Content-Type'', ''application/json'')] hs)"

definition httpRequest ::
  "runtime \<Rightarrow> fetch \<Rightarrow> HttpMCPConfig \<Rightarrow> string \<Rightarrow> string \<Rightarrow> jsval \<Rightarrow> error + jsval" where
  "httpRequest rt fetch cfg method path body =
     (case fetch (http_url cfg @ path)
             \<lparr>fetch_method = method, fetch_headers = merged_headers cfg,
              fetch_body = JSON_stringify rt body\<rparr> of
        Inl e \<Rightarrow> Inl e
      | Inr response \<Rightarrow>
          if \<not> ok response
          then Inl (Error (''HTTP '' @ show_nat (http_status response) @ '': '' @
                  body_text response))
          else body_json response)"

definition Http_listTools :: "runtime \<Rightarrow> fetch \<Rightarrow> HttpMCPConfig \<Rightarrow> error + jsval" where
  "Http_listTools rt fetch cfg =
     (case httpRequest rt fetch cfg ''POST'' ''/tools/list'' (Obj []) of
        Inl e \<Rightarrow> Inl e
      | Inr response \<Rightarrow>
          (case get_prop response ''tools'' of
             Inl e \<Rightarrow> Inl e
           | Inr t \<Rightarrow> Inr (if truthy t then t else Arr [])))"

text \<open>\<open>connect\<close>, with the lines it logs.\<close>

definition Http_connect ::
  "runtime \<Rightarrow> fetch \<Rightarrow> HttpMCPConfig \<Rightarrow> (error + unit) \<times> log_entry list" where
  "Http_connect rt fetch cfg =
     (case Http_listTools rt fetch cfg of
        Inl e \<Rightarrow>
          (Inl (Error (''Failed to connect to HTTP MCP server '' @ http_name cfg @ '': '' @
             message e)),
           [Info (''Connecting to HTTP MCP server: '' @ http_name cfg @ '' at '' @ http_url cfg)])
      | Inr tools \<Rightarrow>
          (Inr (),
           [Info (''Connecting to HTTP MCP server: '' @ http_name cfg @ '' at '' @ http_url cfg),
            Info (''Connected to HTTP MCP server: '' @ http_name cfg)]))"

definition Http_callToolImpl ::
  "runtime \<Rightarrow> fetch \<Rightarrow> HttpMCPConfig \<Rightarrow> string \<Rightarrow> jsval \<Rightarrow> error + ToolResult" where
  "Http_callToolImpl rt fetch cfg toolName args =
     (case httpRequest rt fetch cfg ''POST'' ''/tools/call''
             (Obj [(''name'', Str toolName), (''arguments'', args)]) of
        Inl e \<Rightarrow> Inl e
      | Inr response \<Rightarrow>
          (case get_prop response ''content'' of
             Inl e \<Rightarrow> Inl e
           | Inr c \<Rightarrow>
               Inr \<lparr>status = success, content = JSON_stringify rt c,
                    metadata = Some (http_name cfg)\<rparr>))"

definition Http_isConnected :: "HttpMCPConfig \<Rightarrow> bool" where
  "Http_isConnected cfg = True"

section \<open>EnhancedMCPClient\<close>

text \<open>
  The client holds its connections through the interface of \<open>BaseMCPConnection\<close>.
  A connection object is given by what awaiting its methods yields: \<open>listTools()\<close>
  the declared tool descriptors or the error thrown, and \<open>callToolImpl(toolName, args)\<close>
  a result or the error thrown.  The client and all its connections write to one
  \<open>Logger\<close>; while a call is awaited, the handlers that the stdio connections installed
  (stdout lines that fail to parse, stderr, process error, exit) may write to it, and
  the \<open>_logged\<close> fields give those lines.
\<close>

record descriptor =
  d_name :: string
  d_description :: string
  d_inputSchema :: jsval

record connection =
  conn_listTools :: "error + descriptor list"
  conn_listTools_logged :: "log_entry list"
  conn_callToolImpl :: "string \<Rightarrow> jsval \<Rightarrow> error + ToolResult"
  conn_callTool_logged :: "string \<Rightarrow> jsval \<Rightarrow> log_entry list"

text \<open>
  \<open>BaseMCPConnection.callTool\<close>: the result, and the lines in the log: the call, what
  was written while \<open>callToolImpl\<close> was awaited, and the result.
\<close>

definition connection_callTool ::
  "connection \<Rightarrow> string \<Rightarrow> jsval \<Rightarrow> ToolResult \<times> log_entry list" where
  "connection_callTool conn toolName args =
     (let r = callTool_catch (conn_callToolImpl conn toolName args)
      in (r, [ToolCallLog toolName args] @ conn_callTool_logged conn toolName args @
             [ToolResultLog toolName r]))"

record MCPServerConfig =
  cfg_name :: string
  cfg_transport :: string
  cfg_command :: "string option"
  cfg_args :: "string list option"
  cfg_url :: "string option"
  cfg_headers :: "(string \<times> string) list option"

record StdioMCPConfig =
  stdio_name :: string
  stdio_command :: string
  stdio_args :: "string list"

text \<open>
  The world outside the client: the child that \<open>spawn\<close> returns for a stdio
  configuration, and what the handlers write to the \<open>Logger\<close> while the client
  awaits \<open>connect\<close> of that connection (a spawn that fails reports it by an \<open>error\<close>
  event on the next tick); the runtime and the network that an HTTP connection uses in
  its \<open>connect\<close>, and what the handlers write while that request is awaited; and how
  the connection object made for a configuration behaves once it is registered.
\<close>

record world =
  spawn :: "StdioMCPConfig \<Rightarrow> ChildProcess"
  spawn_logged :: "StdioMCPConfig \<Rightarrow> log_entry list"
  stdio_server :: "StdioMCPConfig \<Rightarrow> connection"
  world_runtime :: runtime
  world_fetch :: fetch
  fetch_logged :: "HttpMCPConfig \<Rightarrow> log_entry list"
  http_server :: "HttpMCPConfig \<Rightarrow> connection"

record MCPToolWrapper =
  w_serverName :: string
  w_toolName :: string
  w_name :: string
  w_description :: string
  w_parameters :: jsval

text \<open>
  The two registries are \<open>Map\<close>s, kept in insertion order: \<open>set\<close> on a key that is
  present replaces its value in place, \<open>set\<close> on a new key appends.
\<close>

record EnhancedMCPClient =
  stdioServers :: "(string \<times> connection) list"
  httpServers :: "(string \<times> connection) list"
  discoveredTools :: "MCPToolWrapper list"
  client_logger :: "log_entry list"

definition new_EnhancedMCPClient :: EnhancedMCPClient where
  "new_EnhancedMCPClient =
     \<lparr>stdioServers = [], httpServers = [], discoveredTools = [], client_logger = []\<rparr>"

definition client_log :: "log_entry \<Rightarrow> EnhancedMCPClient \<Rightarrow> EnhancedMCPClient" where
  "client_log l cl = cl\<lparr>client_logger := client_logger cl @ [l]\<rparr>"

text \<open>
  The lines of a call that logs, waits, and logs again, with the lines that others
  wrote while it waited.
\<close>

definition during :: "log_entry list \<Rightarrow> log_entry list \<Rightarrow> log_entry list" where
  "during own others = take 1 own @ others @ drop 1 own"

text \<open>
  \<open>initializeStdioServer\<close>.  The connection is made with the client's \<open>Logger\<close>, so
  what \<open>connect\<close> logs is in the client's log, whether it succeeds or throws.
  \<open>connect\<close> of a stdio connection waits for nothing, so no handler runs before it
  returns; the handlers can run while the client awaits what it returned.
\<close>

definition initializeStdioServer ::
  "world \<Rightarrow> EnhancedMCPClient \<Rightarrow> MCPServerConfig \<Rightarrow> (error + unit) \<times> EnhancedMCPClient" where
  "initializeStdioServer w cl config =
     (case (cfg_command config, cfg_args config) of
        (Some command, Some args) \<Rightarrow>
          if command = []
          then (Inl (Error (''Stdio server '' @ cfg_name config @ '' missing command or args'')),
                cl)
          else
            (let stdioConfig = \<lparr>stdio_name = cfg_name config, stdio_command = command,
                                 stdio_args = args\<rparr>;
                 connected = Stdio_connect (new_StdioMCPConnection (stdio_name stdioConfig))
                               (spawn w stdioConfig);
                 cl1 = cl\<lparr>client_logger := client_logger cl @ logger (snd connected) @
                          spawn_logged w stdioConfig\<rparr>
             in case fst connected of
                  Inl e \<Rightarrow> (Inl e, cl1)
                | Inr u \<Rightarrow>
                    (Inr (),
                     client_log (Info (''Initialized stdio MCP server: '' @ cfg_name config))
                       (cl1\<lparr>stdioServers :=
                            AList.update (cfg_name config) (stdio_server w stdioConfig)
                              (stdioServers cl1)\<rparr>)))
      | _ \<Rightarrow>
          (Inl (Error (''Stdio server '' @ cfg_name config @ '' missing command or args'')),
           cl))"

text \<open>\<open>initializeHttpServer\<close>, with what \<open>connect\<close> logs likewise.\<close>

definition initializeHttpServer ::
  "world \<Rightarrow> EnhancedMCPClient \<Rightarrow> MCPServerConfig \<Rightarrow> (error + unit) \<times> EnhancedMCPClient" where
  "initializeHttpServer w cl config =
     (case cfg_url config of
        None \<Rightarrow> (Inl (Error (''HTTP server '' @ cfg_name config @ '' missing url'')), cl)
      | Some u \<Rightarrow>
          if u = []
          then (Inl (Error (''HTTP server '' @ cfg_name config @ '' missing url'')), cl)
          else
            (let httpConfig = \<lparr>http_name = cfg_name config, http_url = u,
                                http_headers = cfg_headers config\<rparr>;
                 connected = Http_connect (world_runtime w) (world_fetch w) httpConfig;
                 cl1 = cl\<lparr>client_logger := client_logger cl @
                          during (snd connected) (fetch_logged w httpConfig)\<rparr>
             in case fst connected of
                  Inl e \<Rightarrow> (Inl e, cl1)
                | Inr u \<Rightarrow>
                    (Inr (),
                     client_log (Info (''Initialized HTTP MCP server: '' @ cfg_name config))
                       (cl1\<lparr>httpServers :=
                            AList.update (cfg_name config) (http_server w httpConfig)
                              (httpServers cl1)\<rparr>))))"

text \<open>The \<open>try\<close> block of the loop in \<open>initialize\<close>, and the loop body with its \<open>catch\<close>.\<close>

definition initialize_try ::
  "world \<Rightarrow> EnhancedMCPClient \<Rightarrow> MCPServerConfig \<Rightarrow> (error + unit) \<times> EnhancedMCPClient" where
  "initialize_try w cl config =
     (if cfg_transport config = ''stdio'' then initializeStdioServer w cl config
      else if cfg_transport config = ''http'' then initializeHttpServer w cl config
      else (Inr (),
            client_log (ErrorLog (''Unknown transport type: '' @ cfg_transport config) None) cl))"

definition initialize_server ::
  "world \<Rightarrow> EnhancedMCPClient \<Rightarrow> MCPServerConfig \<Rightarrow> EnhancedMCPClient" where
  "initialize_server w cl config =
     (case initialize_try w cl config of
        (Inr u, cl') \<Rightarrow> cl'
      | (Inl e, cl') \<Rightarrow>
          client_log
            (ErrorLog (''Failed to initialize MCP server '' @ cfg_name config) (Some e)) cl')"

definition wrap_tool :: "string \<Rightarrow> descriptor \<Rightarrow> MCPToolWrapper" where
  "wrap_tool serverName tool =
     \<lparr>w_serverName = serverName,
      w_toolName = d_name tool,
      w_name = ''mcp_'' @ serverName @ ''_'' @ d_name tool,
      w_description =
        (if d_description tool \<noteq> [] then d_description tool
         else ''Tool '' @ d_name tool @ '' from '' @ serverName),
      w_parameters = d_inputSchema tool\<rparr>"

text \<open>The body of the loop in \<open>discoverToolsFromConnections\<close>, and the loop.\<close>

definition discover_from ::
  "string \<Rightarrow> EnhancedMCPClient \<Rightarrow> string \<times> connection \<Rightarrow> EnhancedMCPClient" where
  "discover_from serverType cl entry =
     (let cl1 = cl\<lparr>client_logger := client_logger cl @ conn_listTools_logged (snd entry)\<rparr>
      in case conn_listTools (snd entry) of
           Inl e \<Rightarrow>
             client_log
               (ErrorLog (''Failed to list tools from '' @ serverType @ '' server '' @ fst entry)
                  (Some e)) cl1
         | Inr tools \<Rightarrow>
             (client_log
                (Info (''Discovered '' @ show_nat (length tools) @ '' tools from '' @
                   serverType @ '' server '' @ fst entry)) cl1)
               \<lparr>discoveredTools := discoveredTools cl1 @ map (wrap_tool (fst entry)) tools\<rparr>)"

definition discoverToolsFromConnections ::
  "EnhancedMCPClient \<Rightarrow> (string \<times> connection) list \<Rightarrow> string \<Rightarrow> EnhancedMCPClient" where
  "discoverToolsFromConnections cl connections serverType =
     foldl (discover_from serverType) cl connections"

definition discoverTools :: "EnhancedMCPClient \<Rightarrow> MCPToolWrapper list \<times> EnhancedMCPClient" where
  "discoverTools cl =
     (let cl0 = cl\<lparr>discoveredTools := []\<rparr>;
          cl1 = discoverToolsFromConnections cl0 (stdioServers cl0) ''stdio'';
          cl2 = discoverToolsFromConnections cl1 (httpServers cl1) ''HTTP''
      in (discoveredTools cl2, cl2))"

definition initialize :: "world \<Rightarrow> EnhancedMCPClient \<Rightarrow> MCPServerConfig list \<Rightarrow> EnhancedMCPClient" where
  "initialize w cl configs =
     (let cl0 = client_log
                  (Info (''Initializing EnhancedMCPClient with '' @ show_nat (length configs) @
                     '' servers'')) cl;
          cl1 = foldl (initialize_server w) cl0 configs;
          cl2 = snd (discoverTools cl1)
      in client_log
           (Info (''Initialized '' @ show_nat (length (discoveredTools cl2)) @
              '' tools from MCP servers'')) cl2)"

text \<open>
  \<open>callTool\<close> of the client: \<open>Inl\<close> is the error it throws to its caller (the promise
  it returns is rejected).
\<close>

definition callTool ::
  "EnhancedMCPClient \<Rightarrow> string \<Rightarrow> string \<Rightarrow> jsval \<Rightarrow> (error + ToolResult) \<times> EnhancedMCPClient" where
  "callTool cl serverName toolName args =
     (case map_of (stdioServers cl) serverName of
        Some conn \<Rightarrow>
          (Inr (fst (connection_callTool conn toolName args)),
           cl\<lparr>client_logger := client_logger cl @ snd (connection_callTool conn toolName args)\<rparr>)
      | None \<Rightarrow>
          (case map_of (httpServers cl) serverName of
             Some conn \<Rightarrow>
               (Inr (fst (connection_callTool conn toolName args)),
                cl\<lparr>client_logger :=
                     client_logger cl @ snd (connection_callTool conn toolName args)\<rparr>)
           | None \<Rightarrow> (Inl (Error (''MCP server '' @ quoted serverName @ '' not found'')), cl)))"

section \<open>Invariant of a stdio connection\<close>

definition ids :: "StdioMCPConnection \<Rightarrow> nat list" where
  "ids st = map (\<lambda>e. req_id (snd e)) (written st)"

text \<open>
  The ids written so far increase strictly, are positive and at most \<open>messageId\<close>;
  an entry of \<open>pendingRequests\<close> stands under the id of its own request, belongs to a
  promise that nobody has resolved or rejected, and has its timer waiting; a waiting
  timer carries the request of its promise and is due \<open>REQUEST_TIMEOUT\<close> after the
  request was written; every promise is settled or has its entry; and no promise is
  settled twice.
\<close>

definition conn_ok :: "StdioMCPConnection \<Rightarrow> bool" where
  "conn_ok st \<longleftrightarrow>
     sorted_wrt (<) (ids st) \<and>
     (\<forall>i \<in> set (ids st). 0 < i \<and> i \<le> messageId st) \<and>
     (\<forall>k p. pendingRequests st k = Some p \<longrightarrow>
        p < length (written st) \<and> ids st ! p = k \<and> p \<notin> fst ` set (settled st) \<and>
        (\<exists>t \<in> set (timers st). for_promise t = p)) \<and>
     (\<forall>t \<in> set (timers st).
        for_promise t < length (written st) \<and>
        for_request t = snd (written st ! for_promise t) \<and>
        due t = fst (written st ! for_promise t) + REQUEST_TIMEOUT) \<and>
     (\<forall>p < length (written st).
        p \<in> fst ` set (settled st) \<or> pendingRequests st (ids st ! p) = Some p) \<and>
     distinct (map fst (settled st)) \<and>
     (\<forall>p \<in> fst ` set (settled st). p < length (written st))"

definition timer_of :: "StdioMCPConnection \<Rightarrow> timer \<Rightarrow> bool" where
  "timer_of st t \<longleftrightarrow>
     for_promise t < length (written st) \<and> for_request t = snd (written st ! for_promise t)"

section \<open>Notions used to state the properties\<close>

text \<open>
  The lines on which the loop of the stdout handler runs over a sequence of \<open>data\<close>
  events, in order, and the buffer left after the last of them.
\<close>

fun read_loop :: "string \<Rightarrow> string list \<Rightarrow> string list \<times> string" where
  "read_loop buf [] = ([], buf)"
| "read_loop buf (data # rest) =
     (case frame buf data of
        (lines, buf') \<Rightarrow>
          (case read_loop buf' rest of
             (others, final) \<Rightarrow> (lines @ others, final)))"

text \<open>A connection, and a client, without what they have logged.\<close>

definition forget_log :: "StdioMCPConnection \<Rightarrow> StdioMCPConnection" where
  "forget_log st = st\<lparr>logger := []\<rparr>"

definition forget_client_log :: "EnhancedMCPClient \<Rightarrow> EnhancedMCPClient" where
  "forget_client_log cl = cl\<lparr>client_logger := []\<rparr>"

text \<open>The events that take an id from the counter.\<close>

fun allocates :: "event \<Rightarrow> bool" where
  "allocates ListTools = True"
| "allocates (CallTool toolName args) = True"
| "allocates ev = False"


fun is_Connect :: "event \<Rightarrow> bool" where
  "is_Connect (Connect child) = True"
| "is_Connect ev = False"

text \<open>The wrappers that discovery makes for one entry of a registry.\<close>

definition tools_of :: "string \<times> connection \<Rightarrow> MCPToolWrapper list" where
  "tools_of entry =
     (case conn_listTools (snd entry) of
        Inl e \<Rightarrow> []
      | Inr tools \<Rightarrow> map (wrap_tool (fst entry)) tools)"


text \<open>
  \<open>connects w config conn\<close>: the configuration names a known transport, has the fields
  that transport requires, \<open>connect\<close> succeeds, and \<open>conn\<close> is the connection made.
\<close>

definition connects :: "world \<Rightarrow> MCPServerConfig \<Rightarrow> connection \<Rightarrow> bool" where
  "connects w config conn =
     (if cfg_transport config = ''stdio'' then
        (case (cfg_command config, cfg_args config) of
           (Some command, Some args) \<Rightarrow>
             command \<noteq> [] \<and>
             fst (Stdio_connect (new_StdioMCPConnection (cfg_name config))
                    (spawn w \<lparr>stdio_name = cfg_name config, stdio_command = command,
                              stdio_args = args\<rparr>)) = Inr () \<and>
             conn = stdio_server w \<lparr>stdio_name = cfg_name config, stdio_command = command,
                                    stdio_args = args\<rparr>
         | _ \<Rightarrow> False)
      else if cfg_transport config = ''http'' then
        (case cfg_url config of
           Some u \<Rightarrow>
             u \<noteq> [] \<and>
             fst (Http_connect (world_runtime w) (world_fetch w)
                    \<lparr>http_name = cfg_name config, http_url = u,
                     http_headers = cfg_headers config\<rparr>) = Inr () \<and>
             conn = http_server w \<lparr>http_name = cfg_name config, http_url = u,
                                   http_headers = cfg_headers config\<rparr>
         | None \<Rightarrow> False)
      else False)"

text \<open>
  The line that discovery logs for one entry of a registry, and what the log gains
  while discovery is at that entry: the lines written while \<open>listTools\<close> was awaited,
  then that line.
\<close>

definition discovery_line :: "string \<Rightarrow> string \<times> connection \<Rightarrow> log_entry" where
  "discovery_line serverType entry =
     (case conn_listTools (snd entry) of
        Inl e \<Rightarrow>
          ErrorLog (''Failed to list tools from '' @ serverType @ '' server '' @ fst entry)
            (Some e)
      | Inr tools \<Rightarrow>
          Info (''Discovered '' @ show_nat (length tools) @ '' tools from '' @ serverType @
            '' server '' @ fst entry))"

definition discovery_lines :: "string \<Rightarrow> string \<times> connection \<Rightarrow> log_entry list" where
  "discovery_lines serverType entry =
     conn_listTools_logged (snd entry) @ [discovery_line serverType entry]"

text \<open>All registered connections, the stdio registry first.\<close>

definition servers :: "EnhancedMCPClient \<Rightarrow> (string \<times> connection) list" where
  "servers cl = stdioServers cl @ httpServers cl"

subsection \<open>Concrete inputs\<close>

text \<open>
  A runtime whose \<open>JSON.parse\<close> knows one response line, and a child process with both
  streams.
\<close>

definition demo_runtime :: runtime where
  \<open>demo_runtime =
     \<lparr>JSON_parse = (\<lambda>line.
        if line = ''{"id":1}'' then Inr (Obj [(''id'', Num 1)])
        else Inl (SyntaxError ''Unexpected token'')),
      JSON_stringify = (\<lambda>v. ''null''),
      String_of = (\<lambda>v. ''[object Object]'')\<rparr>\<close>

definition demo_child :: ChildProcess where
  "demo_child = \<lparr>stdin = True, stdout = True, killed = False\<rparr>"


definition demo_response :: string where
  \<open>demo_response = ''{"id":1}'' @ [newline]\<close>


text \<open>
  A response line whose result holds the two-byte character U+00E9, and the same bytes
  arriving in two chunks that part inside the character.
\<close>

definition accented_response :: string where
  \<open>accented_response = ''{"id":1,"result":"'' @ [CHR 0xC3, CHR 0xA9] @ ''"}'' @ [newline]\<close>

definition accented_first :: string where
  \<open>accented_first = ''{"id":1,"result":"'' @ [CHR 0xC3]\<close>

definition accented_second :: string where
  \<open>accented_second = [CHR 0xA9] @ ''"}'' @ [newline]\<close>

text \<open>
  A runtime whose \<open>JSON.parse\<close> reads the response line with the character, and the
  line in which two replacement characters stand in its place, as JSON does.
\<close>

definition accent_runtime :: runtime where
  \<open>accent_runtime =
     \<lparr>JSON_parse = (\<lambda>line.
        if line = ''{"id":1,"result":"'' @ [CHR 0xC3, CHR 0xA9] @ ''"}''
        then Inr (Obj [(''id'', Num 1), (''result'', Str [CHR 0xC3, CHR 0xA9])])
        else if line = ''{"id":1,"result":"'' @ REPLACEMENT @ REPLACEMENT @ ''"}''
        then Inr (Obj [(''id'', Num 1), (''result'', Str (REPLACEMENT @ REPLACEMENT))])
        else Inl (SyntaxError ''Unexpected token'')),
      JSON_stringify = (\<lambda>v. ''null''),
      String_of = (\<lambda>v. ''[object Object]'')\<rparr>\<close>

definition demo_chunks :: "string list" where
  \<open>demo_chunks = [''oops'' @ [newline] @ ''{"id'', ''":1}'' @ [newline] @ ''{'']\<close>

definition demo_http :: HttpMCPConfig where
  "demo_http = \<lparr>http_name = ''web'', http_url = ''http://localhost:3000/mcp'', http_headers = None\<rparr>"

definition fetch_refused :: fetch where
  "fetch_refused u init = Inl (TypeError ''fetch failed'')"

text \<open>
  A stdio connection that lists one tool named \<open>search\<close> and whose tool calls fail,
  with a line from its child's stderr in the log while its tools are listed; an HTTP
  connection that lists the same tool; a client with one server on each transport; a
  network that refuses every request to port 9 and answers the others with that list of
  tools; a world with that network in which every spawn gives a child with both
  streams; and configurations: a stdio one without a command, an HTTP one at port 9, a
  good one for each transport, and one with an unknown transport.
\<close>

definition search_tool :: descriptor where
  "search_tool = \<lparr>d_name = ''search'', d_description = ''Search documents'', d_inputSchema = Obj []\<rparr>"

definition search_server :: connection where
  "search_server =
     \<lparr>conn_listTools = Inr [search_tool],
      conn_listTools_logged = [ErrorLog ''MCP server A stderr: ready'' None],
      conn_callToolImpl = (\<lambda>toolName args. Inl (Error ''connection reset'')),
      conn_callTool_logged = (\<lambda>toolName args. [])\<rparr>"

definition web_server :: connection where
  "web_server =
     \<lparr>conn_listTools = Inr [search_tool],
      conn_listTools_logged = [],
      conn_callToolImpl = (\<lambda>toolName args. Inl (Error ''connection reset'')),
      conn_callTool_logged = (\<lambda>toolName args. [])\<rparr>"

definition two_servers :: EnhancedMCPClient where
  "two_servers =
     \<lparr>stdioServers = [(''A'', search_server)], httpServers = [(''B'', search_server)],
      discoveredTools = [], client_logger = []\<rparr>"

definition flaky_fetch :: fetch where
  "flaky_fetch u init =
     (if u = ''http://localhost:9/mcp/tools/list'' then Inl (TypeError ''fetch failed'')
      else Inr \<lparr>ok = True, http_status = 200, body_text = [],
                body_json = Inr (Obj [(''tools'',
                  Arr [Obj [(''name'', Str ''search''),
                            (''description'', Str ''Search documents''),
                            (''inputSchema'', Obj [])]])])\<rparr>)"

definition flaky_world :: world where
  "flaky_world =
     \<lparr>spawn = (\<lambda>cfg. demo_child),
      spawn_logged = (\<lambda>cfg. []),
      stdio_server = (\<lambda>cfg. search_server),
      world_runtime = demo_runtime,
      world_fetch = flaky_fetch,
      fetch_logged = (\<lambda>cfg. []),
      http_server = (\<lambda>cfg. web_server)\<rparr>"

definition broken_config :: MCPServerConfig where
  "broken_config =
     \<lparr>cfg_name = ''broken'', cfg_transport = ''stdio'', cfg_command = None,
      cfg_args = Some [], cfg_url = None, cfg_headers = None\<rparr>"

definition down_config :: MCPServerConfig where
  "down_config =
     \<lparr>cfg_name = ''down'', cfg_transport = ''http'', cfg_command = None,
      cfg_args = None, cfg_url = Some ''http://localhost:9/mcp'', cfg_headers = None\<rparr>"

definition stdio_config :: MCPServerConfig where
  "stdio_config =
     \<lparr>cfg_name = ''A'', cfg_transport = ''stdio'', cfg_command = Some ''npx'',
      cfg_args = Some [''server''], cfg_url = None, cfg_headers = None\<rparr>"

definition http_config :: MCPServerConfig where
  "http_config =
     \<lparr>cfg_name = ''B'', cfg_transport = ''http'', cfg_command = None,
      cfg_args = None, cfg_url = Some ''http://localhost:3000/mcp'', cfg_headers = None\<rparr>"

definition ftp_config :: MCPServerConfig where
  "ftp_config =
     \<lparr>cfg_name = ''C'', cfg_transport = ''ftp'', cfg_command = None,
      cfg_args = None, cfg_url = Some ''ftp://localhost'', cfg_headers = None\<rparr>"

section \<open>Proofs: the stdio connection\<close>

lemma settle_fields [simp]:
  "config_name (settle p out st) = config_name st"
  "process (settle p out st) = process st"
  "messageId (settle p out st) = messageId st"
  "pendingRequests (settle p out st) = pendingRequests st"
  "buffer (settle p out st) = buffer st"
  "now (settle p out st) = now st"
  "written (settle p out st) = written st"
  "timers (settle p out st) = timers st"
  "settled (settle p out st) = settled st @ [(p, out)]"
  "logger (settle p out st) = logger st"
  by (simp_all add: settle_def)

lemma log_add_fields [simp]:
  "config_name (log_add l st) = config_name st"
  "process (log_add l st) = process st"
  "messageId (log_add l st) = messageId st"
  "pendingRequests (log_add l st) = pendingRequests st"
  "buffer (log_add l st) = buffer st"
  "now (log_add l st) = now st"
  "written (log_add l st) = written st"
  "timers (log_add l st) = timers st"
  "settled (log_add l st) = settled st"
  "logger (log_add l st) = logger st @ [l]"
  by (simp_all add: log_add_def)

lemma handleResponse_keeps:
  "config_name (snd (handleResponse rt st msg)) = config_name st \<and>
   process (snd (handleResponse rt st msg)) = process st \<and>
   messageId (snd (handleResponse rt st msg)) = messageId st \<and>
   buffer (snd (handleResponse rt st msg)) = buffer st \<and>
   now (snd (handleResponse rt st msg)) = now st \<and>
   written (snd (handleResponse rt st msg)) = written st \<and>
   timers (snd (handleResponse rt st msg)) = timers st"
  by (simp add: handleResponse_def Let_def split: sum.splits option.splits)

lemma handle_line_keeps:
  "config_name (handle_line rt st line) = config_name st \<and>
   process (handle_line rt st line) = process st \<and>
   messageId (handle_line rt st line) = messageId st \<and>
   buffer (handle_line rt st line) = buffer st \<and>
   now (handle_line rt st line) = now st \<and>
   written (handle_line rt st line) = written st \<and>
   timers (handle_line rt st line) = timers st"
proof (cases "trim_nonempty line")
  case False
  then show ?thesis by (simp add: handle_line_def)
next
  case True
  show ?thesis
  proof (cases "JSON_parse rt line")
    case (Inl e)
    with True show ?thesis by (simp add: handle_line_def)
  next
    case (Inr msg)
    obtain r st' where h: "handleResponse rt st msg = (r, st')" by (cases "handleResponse rt st msg")
    have "st' = snd (handleResponse rt st msg)" using h by simp
    then have k: "config_name st' = config_name st \<and> process st' = process st \<and>
      messageId st' = messageId st \<and> buffer st' = buffer st \<and> now st' = now st \<and>
      written st' = written st \<and> timers st' = timers st"
      using handleResponse_keeps [of rt st msg] by simp
    show ?thesis using True Inr h k by (cases r) (simp_all add: handle_line_def)
  qed
qed

lemma handle_lines_keeps:
  "config_name (foldl (handle_line rt) st ls) = config_name st \<and>
   process (foldl (handle_line rt) st ls) = process st \<and>
   messageId (foldl (handle_line rt) st ls) = messageId st \<and>
   buffer (foldl (handle_line rt) st ls) = buffer st \<and>
   now (foldl (handle_line rt) st ls) = now st \<and>
   written (foldl (handle_line rt) st ls) = written st \<and>
   timers (foldl (handle_line rt) st ls) = timers st"
proof (induction ls arbitrary: st)
  case Nil
  show ?case by simp
next
  case (Cons l ls)
  show ?case using Cons [of "handle_line rt st l"] handle_line_keeps [of rt st l] by simp
qed

lemma stdout_on_data_unfold:
  "stdout_on_data rt st data =
     foldl (handle_line rt) (st\<lparr>buffer := snd (frame (buffer st) data)\<rparr>)
       (fst (frame (buffer st) data))"
  by (simp add: stdout_on_data_def split_def Let_def)

lemma stdout_on_data_keeps:
  "config_name (stdout_on_data rt st data) = config_name st \<and>
   process (stdout_on_data rt st data) = process st \<and>
   messageId (stdout_on_data rt st data) = messageId st \<and>
   now (stdout_on_data rt st data) = now st \<and>
   written (stdout_on_data rt st data) = written st \<and>
   timers (stdout_on_data rt st data) = timers st"
  using handle_lines_keeps [of rt "st\<lparr>buffer := snd (frame (buffer st) data)\<rparr>" "fst (frame (buffer st) data)"]
  by (simp add: stdout_on_data_unfold)

lemma timer_callback_keeps:
  "config_name (timer_callback st t) = config_name st \<and>
   process (timer_callback st t) = process st \<and>
   messageId (timer_callback st t) = messageId st \<and>
   buffer (timer_callback st t) = buffer st \<and>
   now (timer_callback st t) = now st \<and>
   written (timer_callback st t) = written st \<and>
   timers (timer_callback st t) = timers st"
  by (simp add: timer_callback_def)


lemma run_timer_keeps:
  "config_name (run_timer st t) = config_name st \<and>
   process (run_timer st t) = process st \<and>
   messageId (run_timer st t) = messageId st \<and>
   buffer (run_timer st t) = buffer st \<and>
   now (run_timer st t) = now st \<and>
   written (run_timer st t) = written st"
  by (simp add: run_timer_def timer_callback_def)

lemma run_timers_keeps:
  "config_name (foldl run_timer st ts) = config_name st \<and>
   process (foldl run_timer st ts) = process st \<and>
   messageId (foldl run_timer st ts) = messageId st \<and>
   buffer (foldl run_timer st ts) = buffer st \<and>
   now (foldl run_timer st ts) = now st \<and>
   written (foldl run_timer st ts) = written st"
proof (induction ts arbitrary: st)
  case Nil
  show ?case by simp
next
  case (Cons t ts)
  show ?case using Cons [of "run_timer st t"] run_timer_keeps [of st t] by simp
qed

lemma conn_ok_cong:
  assumes "messageId st' = messageId st" "pendingRequests st' = pendingRequests st"
    "written st' = written st" "timers st' = timers st" "settled st' = settled st"
  shows "conn_ok st' = conn_ok st"
  using assms by (simp add: conn_ok_def ids_def)

lemma conn_ok_new: "conn_ok (new_StdioMCPConnection name)"
  by (simp add: conn_ok_def ids_def new_StdioMCPConnection_def)


lemma conn_ok_pending:
  "conn_ok st \<Longrightarrow> pendingRequests st k = Some p \<Longrightarrow>
     p < length (written st) \<and> ids st ! p = k \<and> p \<notin> fst ` set (settled st) \<and>
     (\<exists>t \<in> set (timers st). for_promise t = p)"
  unfolding conn_ok_def by blast

lemma conn_ok_timer:
  "conn_ok st \<Longrightarrow> t \<in> set (timers st) \<Longrightarrow>
     for_promise t < length (written st) \<and>
     for_request t = snd (written st ! for_promise t) \<and>
     due t = fst (written st ! for_promise t) + REQUEST_TIMEOUT"
  unfolding conn_ok_def by blast

lemma conn_ok_promise:
  "conn_ok st \<Longrightarrow> p < length (written st) \<Longrightarrow>
     p \<in> fst ` set (settled st) \<or> pendingRequests st (ids st ! p) = Some p"
  unfolding conn_ok_def by blast

lemma conn_ok_distinct: "conn_ok st \<Longrightarrow> distinct (map fst (settled st))"
  unfolding conn_ok_def by blast

lemma conn_ok_settled: "conn_ok st \<Longrightarrow> p \<in> fst ` set (settled st) \<Longrightarrow> p < length (written st)"
  unfolding conn_ok_def by blast

lemma conn_ok_ids:
  "conn_ok st \<Longrightarrow> sorted_wrt (<) (ids st) \<and> (\<forall>i \<in> set (ids st). 0 < i \<and> i \<le> messageId st)"
  unfolding conn_ok_def by blast

lemma conn_okI:
  assumes "sorted_wrt (<) (ids st)"
    and "\<And>i. i \<in> set (ids st) \<Longrightarrow> 0 < i \<and> i \<le> messageId st"
    and "\<And>k p. pendingRequests st k = Some p \<Longrightarrow>
        p < length (written st) \<and> ids st ! p = k \<and> p \<notin> fst ` set (settled st) \<and>
        (\<exists>t \<in> set (timers st). for_promise t = p)"
    and "\<And>t. t \<in> set (timers st) \<Longrightarrow>
        for_promise t < length (written st) \<and>
        for_request t = snd (written st ! for_promise t) \<and>
        due t = fst (written st ! for_promise t) + REQUEST_TIMEOUT"
    and "\<And>p. p < length (written st) \<Longrightarrow>
        p \<in> fst ` set (settled st) \<or> pendingRequests st (ids st ! p) = Some p"
    and "distinct (map fst (settled st))"
    and "\<And>p. p \<in> fst ` set (settled st) \<Longrightarrow> p < length (written st)"
  shows "conn_ok st"
  unfolding conn_ok_def using assms by blast

text \<open>Settling the promise of an entry and deleting the entry keeps the invariant.\<close>

lemma conn_ok_settle_delete:
  assumes ok: "conn_ok st" and pk: "pendingRequests st k = Some pr"
  shows "conn_ok (settle pr out (st\<lparr>pendingRequests := (pendingRequests st)(k := None)\<rparr>))"
    (is "conn_ok ?st'")
proof (rule conn_okI)
  have ids': "ids ?st' = ids st" by (simp add: ids_def)
  note a = conn_ok_pending [OF ok pk]
  show "sorted_wrt (<) (ids ?st')" using conn_ok_ids [OF ok] ids' by simp
  show "\<And>i. i \<in> set (ids ?st') \<Longrightarrow> 0 < i \<and> i \<le> messageId ?st'"
    using conn_ok_ids [OF ok] ids' by simp
  show "\<And>k' p. pendingRequests ?st' k' = Some p \<Longrightarrow>
        p < length (written ?st') \<and> ids ?st' ! p = k' \<and> p \<notin> fst ` set (settled ?st') \<and>
        (\<exists>t \<in> set (timers ?st'). for_promise t = p)"
  proof -
    fix k' p assume h: "pendingRequests ?st' k' = Some p"
    then have kk: "k' \<noteq> k" and pk': "pendingRequests st k' = Some p"
      by (auto split: if_splits)
    note b = conn_ok_pending [OF ok pk']
    have "p \<noteq> pr" using a b kk by auto
    then show "p < length (written ?st') \<and> ids ?st' ! p = k' \<and> p \<notin> fst ` set (settled ?st') \<and>
        (\<exists>t \<in> set (timers ?st'). for_promise t = p)"
      using b ids' by auto
  qed
  show "\<And>t. t \<in> set (timers ?st') \<Longrightarrow>
        for_promise t < length (written ?st') \<and>
        for_request t = snd (written ?st' ! for_promise t) \<and>
        due t = fst (written ?st' ! for_promise t) + REQUEST_TIMEOUT"
    using conn_ok_timer [OF ok] by simp
  show "\<And>p. p < length (written ?st') \<Longrightarrow>
        p \<in> fst ` set (settled ?st') \<or> pendingRequests ?st' (ids ?st' ! p) = Some p"
  proof -
    fix p assume "p < length (written ?st')"
    then have pl: "p < length (written st)" by simp
    show "p \<in> fst ` set (settled ?st') \<or> pendingRequests ?st' (ids ?st' ! p) = Some p"
    proof (cases "p = pr")
      case True then show ?thesis by simp
    next
      case False
      from conn_ok_promise [OF ok pl] show ?thesis
      proof
        assume "p \<in> fst ` set (settled st)" then show ?thesis by simp
      next
        assume q: "pendingRequests st (ids st ! p) = Some p"
        have "ids st ! p \<noteq> k" using q pk False by auto
        then show ?thesis using q ids' by simp
      qed
    qed
  qed
  show "distinct (map fst (settled ?st'))" using conn_ok_distinct [OF ok] a by simp
  show "\<And>p. p \<in> fst ` set (settled ?st') \<Longrightarrow> p < length (written ?st')"
    using conn_ok_settled [OF ok] a by auto
qed

lemma key_of_prop_Obj:
  "get_prop msg k = Inr v \<Longrightarrow> key_of v = Some n \<Longrightarrow> \<exists>kvs. msg = Obj kvs"
  by (cases msg) auto

lemma truthy_prop: "truthy v \<Longrightarrow> \<exists>m. get_prop v k = Inr m"
  by (cases v) auto

lemma handleResponse_cases:
  "snd (handleResponse rt st msg) = st \<or>
   (\<exists>k pr out. pendingRequests st k = Some pr \<and>
      snd (handleResponse rt st msg) =
        settle pr out (st\<lparr>pendingRequests := (pendingRequests st)(k := None)\<rparr>))"
proof (cases "get_prop msg ''id''")
  case (Inl e)
  then show ?thesis by (simp add: handleResponse_def)
next
  case (Inr mid)
  show ?thesis
  proof (cases "if mid \<noteq> Undefined then key_of mid else None")
    case None
    with Inr show ?thesis by (simp add: handleResponse_def)
  next
    case (Some k)
    then have km: "key_of mid = Some k" by (simp split: if_splits)
    then obtain kvs where msg: "msg = Obj kvs" using key_of_prop_Obj [OF Inr] by blast
    show ?thesis
    proof (cases "pendingRequests st k")
      case None
      with Inr Some show ?thesis by (simp add: handleResponse_def)
    next
      case (Some pr)
      obtain err where err: "get_prop msg ''error'' = Inr err" by (simp add: msg)
      obtain res where res: "get_prop msg ''result'' = Inr res" by (simp add: msg)
      show ?thesis
      proof (cases "truthy err")
        case True
        then obtain m where m: "get_prop err ''message'' = Inr m" using truthy_prop by blast
        have "snd (handleResponse rt st msg) =
          settle pr (Rejected (Error (ToString rt (if truthy m then m else Str ''MCP request failed''))))
            (st\<lparr>pendingRequests := (pendingRequests st)(k := None)\<rparr>)"
          using Inr \<open>(if mid \<noteq> Undefined then key_of mid else None) = Some k\<close> Some err True m
          by (simp add: handleResponse_def Let_def)
        with Some show ?thesis by blast
      next
        case False
        have "snd (handleResponse rt st msg) =
          settle pr (Resolved res) (st\<lparr>pendingRequests := (pendingRequests st)(k := None)\<rparr>)"
          using Inr \<open>(if mid \<noteq> Undefined then key_of mid else None) = Some k\<close> Some err False res
          by (simp add: handleResponse_def Let_def)
        with Some show ?thesis by blast
      qed
    qed
  qed
qed


lemma conn_ok_response: "conn_ok st \<Longrightarrow> conn_ok (snd (handleResponse rt st msg))"
  using handleResponse_cases [of rt st msg] conn_ok_settle_delete by auto

lemma conn_ok_log [simp]: "conn_ok (log_add l st) = conn_ok st"
  by (rule conn_ok_cong) simp_all

lemma conn_ok_handle_line: "conn_ok st \<Longrightarrow> conn_ok (handle_line rt st line)"
proof -
  assume ok: "conn_ok st"
  show ?thesis
  proof (cases "trim_nonempty line")
    case False then show ?thesis using ok by (simp add: handle_line_def)
  next
    case True
    show ?thesis
    proof (cases "JSON_parse rt line")
      case (Inl e) with True ok show ?thesis by (simp add: handle_line_def)
    next
      case (Inr msg)
      obtain r st' where h: "handleResponse rt st msg = (r, st')"
        by (cases "handleResponse rt st msg")
      then have "conn_ok st'" using conn_ok_response [OF ok, of rt msg] by simp
      then show ?thesis using True Inr h by (cases r) (simp_all add: handle_line_def)
    qed
  qed
qed

lemma conn_ok_handle_lines: "conn_ok st \<Longrightarrow> conn_ok (foldl (handle_line rt) st ls)"
  by (induction ls arbitrary: st) (simp_all add: conn_ok_handle_line)

lemma conn_ok_stdout_on_data: "conn_ok st \<Longrightarrow> conn_ok (stdout_on_data rt st data)"
proof -
  assume ok: "conn_ok st"
  have "conn_ok (st\<lparr>buffer := snd (frame (buffer st) data)\<rparr>) = conn_ok st"
    by (rule conn_ok_cong) simp_all
  then show ?thesis using ok by (simp add: stdout_on_data_unfold conn_ok_handle_lines)
qed


lemma sorted_ids_inj:
  assumes "sorted_wrt (<) (xs :: nat list)" "p < length xs" "q < length xs" "xs ! p = xs ! q"
  shows "p = q"
proof -
  have "distinct xs" using assms(1) by (simp add: strict_sorted_iff [symmetric] sorted_wrt_iff_nth_less distinct_conv_nth) (metis nat_neq_iff order_less_irrefl)
  then show ?thesis using assms by (simp add: nth_eq_iff_index_eq)
qed

lemma conn_ok_run_timer:
  assumes ok: "conn_ok st" and t: "timer_of st t"
  shows "conn_ok (run_timer st t)"
proof -
  let ?p = "for_promise t" and ?k = "req_id (for_request t)"
  have pl: "?p < length (written st)" and idk: "ids st ! ?p = ?k"
    using t by (simp_all add: timer_of_def ids_def)
  have own: "\<And>q. pendingRequests st ?k = Some q \<Longrightarrow> q = ?p"
  proof -
    fix q assume q: "pendingRequests st ?k = Some q"
    note b = conn_ok_pending [OF ok q]
    have len: "length (ids st) = length (written st)" by (simp add: ids_def)
    have e: "ids st ! q = ids st ! ?p" using b idk by simp
    have s: "sorted_wrt (<) (ids st)" using conn_ok_ids [OF ok] by simp
    have ql: "q < length (ids st)" using b len by simp
    have pl': "?p < length (ids st)" using pl len by simp
    show "q = ?p" by (rule sorted_ids_inj [OF s ql pl' e])
  qed
  have keep: "\<And>k q. pendingRequests st k = Some q \<Longrightarrow> q \<noteq> ?p \<Longrightarrow>
      \<exists>t' \<in> set (remove1 t (timers st)). for_promise t' = q"
  proof -
    fix k q assume q: "pendingRequests st k = Some q" and ne: "q \<noteq> ?p"
    from conn_ok_pending [OF ok q] obtain t' where "t' \<in> set (timers st)" "for_promise t' = q"
      by blast
    moreover then have "t' \<noteq> t" using ne by auto
    ultimately show "\<exists>t' \<in> set (remove1 t (timers st)). for_promise t' = q"
      by (auto simp: in_set_remove1)
  qed
  have sub: "\<And>u. u \<in> set (remove1 t (timers st)) \<Longrightarrow> u \<in> set (timers st)"
    by (meson notin_set_remove1)
  show ?thesis
  proof (cases "pendingRequests st ?k")
    case None
    have eq: "run_timer st t = st\<lparr>timers := remove1 t (timers st)\<rparr>"
      using None by (simp add: run_timer_def timer_callback_def)
    show ?thesis unfolding eq
    proof (rule conn_okI)
      let ?st' = "st\<lparr>timers := remove1 t (timers st)\<rparr>"
      have ids': "ids ?st' = ids st" by (simp add: ids_def)
      show "sorted_wrt (<) (ids ?st')" using conn_ok_ids [OF ok] ids' by simp
      show "\<And>i. i \<in> set (ids ?st') \<Longrightarrow> 0 < i \<and> i \<le> messageId ?st'"
        using conn_ok_ids [OF ok] ids' by simp
      show "\<And>k p. pendingRequests ?st' k = Some p \<Longrightarrow>
        p < length (written ?st') \<and> ids ?st' ! p = k \<and> p \<notin> fst ` set (settled ?st') \<and>
        (\<exists>t \<in> set (timers ?st'). for_promise t = p)"
      proof -
        fix k p assume h: "pendingRequests ?st' k = Some p"
        then have h': "pendingRequests st k = Some p" by simp
        note b = conn_ok_pending [OF ok h']
        have "p \<noteq> ?p"
        proof
          assume "p = ?p"
          then have "k = ?k" using b idk by simp
          then show False using h' None by simp
        qed
        then show "p < length (written ?st') \<and> ids ?st' ! p = k \<and> p \<notin> fst ` set (settled ?st') \<and>
          (\<exists>t \<in> set (timers ?st'). for_promise t = p)"
          using b ids' keep [OF h'] by simp
      qed
      show "\<And>u. u \<in> set (timers ?st') \<Longrightarrow>
        for_promise u < length (written ?st') \<and>
        for_request u = snd (written ?st' ! for_promise u) \<and>
        due u = fst (written ?st' ! for_promise u) + REQUEST_TIMEOUT"
        using conn_ok_timer [OF ok sub] by simp
      show "\<And>p. p < length (written ?st') \<Longrightarrow>
        p \<in> fst ` set (settled ?st') \<or> pendingRequests ?st' (ids ?st' ! p) = Some p"
        using conn_ok_promise [OF ok] ids' by simp
      show "distinct (map fst (settled ?st'))" using conn_ok_distinct [OF ok] by simp
      show "\<And>p. p \<in> fst ` set (settled ?st') \<Longrightarrow> p < length (written ?st')"
        using conn_ok_settled [OF ok] by simp
    qed
  next
    case (Some q)
    then have q: "q = ?p" using own by simp
    let ?out = "Rejected (Error (''MCP request timeout: '' @ req_method (for_request t)))"
    let ?st' = "settle ?p ?out
      (st\<lparr>timers := remove1 t (timers st),
          pendingRequests := (pendingRequests st)(?k := None)\<rparr>)"
    have eq: "run_timer st t = ?st'"
      using Some by (simp add: run_timer_def timer_callback_def)
    have pk: "pendingRequests st ?k = Some ?p" using Some q by simp
    note a = conn_ok_pending [OF ok pk]
    show ?thesis unfolding eq
    proof (rule conn_okI)
      have ids': "ids ?st' = ids st" by (simp add: ids_def)
      show "sorted_wrt (<) (ids ?st')" using conn_ok_ids [OF ok] ids' by simp
      show "\<And>i. i \<in> set (ids ?st') \<Longrightarrow> 0 < i \<and> i \<le> messageId ?st'"
        using conn_ok_ids [OF ok] ids' by simp
      show "\<And>k p. pendingRequests ?st' k = Some p \<Longrightarrow>
        p < length (written ?st') \<and> ids ?st' ! p = k \<and> p \<notin> fst ` set (settled ?st') \<and>
        (\<exists>t \<in> set (timers ?st'). for_promise t = p)"
      proof -
        fix k p assume h: "pendingRequests ?st' k = Some p"
        then have kk: "k \<noteq> ?k" and h': "pendingRequests st k = Some p"
          by (auto split: if_splits)
        note b = conn_ok_pending [OF ok h']
        have ne: "p \<noteq> ?p" using a b kk by auto
        then show "p < length (written ?st') \<and> ids ?st' ! p = k \<and> p \<notin> fst ` set (settled ?st') \<and>
          (\<exists>t \<in> set (timers ?st'). for_promise t = p)"
          using b ids' keep [OF h' ne] by auto
      qed
      show "\<And>u. u \<in> set (timers ?st') \<Longrightarrow>
        for_promise u < length (written ?st') \<and>
        for_request u = snd (written ?st' ! for_promise u) \<and>
        due u = fst (written ?st' ! for_promise u) + REQUEST_TIMEOUT"
        using conn_ok_timer [OF ok sub] by simp
      show "\<And>p. p < length (written ?st') \<Longrightarrow>
        p \<in> fst ` set (settled ?st') \<or> pendingRequests ?st' (ids ?st' ! p) = Some p"
      proof -
        fix p assume "p < length (written ?st')"
        then have pl': "p < length (written st)" by simp
        show "p \<in> fst ` set (settled ?st') \<or> pendingRequests ?st' (ids ?st' ! p) = Some p"
        proof (cases "p = ?p")
          case True then show ?thesis by simp
        next
          case False
          from conn_ok_promise [OF ok pl'] show ?thesis
          proof
            assume "p \<in> fst ` set (settled st)" then show ?thesis by simp
          next
            assume r: "pendingRequests st (ids st ! p) = Some p"
            have "ids st ! p \<noteq> ?k" using r pk False by auto
            then show ?thesis using r ids' by simp
          qed
        qed
      qed
      show "distinct (map fst (settled ?st'))" using conn_ok_distinct [OF ok] a by simp
      show "\<And>p. p \<in> fst ` set (settled ?st') \<Longrightarrow> p < length (written ?st')"
        using conn_ok_settled [OF ok] a by auto
    qed
  qed
qed



lemma run_timer_settles:
  assumes ok: "conn_ok st" and t: "timer_of st t"
  shows "for_promise t \<in> fst ` set (settled (run_timer st t))"
proof (cases "pendingRequests st (req_id (for_request t))")
  case None
  have pl: "for_promise t < length (written st)" using t by (simp add: timer_of_def)
  have idk: "ids st ! for_promise t = req_id (for_request t)"
    using t by (simp add: timer_of_def ids_def)
  from conn_ok_promise [OF ok pl] None idk
  have "for_promise t \<in> fst ` set (settled st)" by simp
  then show ?thesis using None by (simp add: run_timer_def timer_callback_def)
next
  case (Some q)
  then show ?thesis by (simp add: run_timer_def timer_callback_def)
qed

lemma run_timer_mono: "set (settled st) \<subseteq> set (settled (run_timer st t))"
  by (auto simp: run_timer_def timer_callback_def)

lemma timer_of_run_timer [simp]: "timer_of (run_timer st u) t = timer_of st t"
  using run_timer_keeps [of st u] by (simp add: timer_of_def)

lemma run_timers:
  assumes "conn_ok st" "\<forall>t \<in> set ts. timer_of st t"
  shows "conn_ok (foldl run_timer st ts) \<and>
         (\<forall>t \<in> set ts. for_promise t \<in> fst ` set (settled (foldl run_timer st ts))) \<and>
         set (settled st) \<subseteq> set (settled (foldl run_timer st ts))"
  using assms
proof (induction ts arbitrary: st)
  case Nil
  then show ?case by simp
next
  case (Cons u us)
  have ok': "conn_ok (run_timer st u)" using Cons.prems by (simp add: conn_ok_run_timer)
  have ts': "\<forall>t \<in> set us. timer_of (run_timer st u) t" using Cons.prems by simp
  note ih = Cons.IH [OF ok' ts']
  have u: "for_promise u \<in> fst ` set (settled (run_timer st u))"
    using Cons.prems by (simp add: run_timer_settles)
  have m: "set (settled st) \<subseteq> set (settled (run_timer st u))" by (rule run_timer_mono)
  show ?case using ih u m by auto
qed

lemma conn_ok_timers_phase: "conn_ok st \<Longrightarrow> conn_ok (timers_phase st)"
proof -
  assume ok: "conn_ok st"
  have "\<forall>t \<in> set (filter (\<lambda>t. due t \<le> now st) (timers st)). timer_of st t"
    using conn_ok_timer [OF ok] by (simp add: timer_of_def)
  from run_timers [OF ok this] show ?thesis by (simp add: timers_phase_def)
qed


lemma conn_ok_send:
  assumes ok: "conn_ok st" and rid: "req_id request = messageId st + 1"
  shows "conn_ok (snd (sendRequest (st\<lparr>messageId := messageId st + 1\<rparr>) request))"
proof (cases "(case process st of None \<Rightarrow> True | Some p \<Rightarrow> \<not> stdin p)")
  case True
  have "conn_ok (st\<lparr>messageId := messageId st + 1\<rparr>)"
  proof (rule conn_okI)
    let ?st' = "st\<lparr>messageId := messageId st + 1\<rparr>"
    have ids': "ids ?st' = ids st" by (simp add: ids_def)
    show "sorted_wrt (<) (ids ?st')" using conn_ok_ids [OF ok] ids' by simp
    show "\<And>i. i \<in> set (ids ?st') \<Longrightarrow> 0 < i \<and> i \<le> messageId ?st'"
      using conn_ok_ids [OF ok] ids' by auto
    show "\<And>k p. pendingRequests ?st' k = Some p \<Longrightarrow>
        p < length (written ?st') \<and> ids ?st' ! p = k \<and> p \<notin> fst ` set (settled ?st') \<and>
        (\<exists>t \<in> set (timers ?st'). for_promise t = p)"
      using conn_ok_pending [OF ok] ids' by simp
    show "\<And>u. u \<in> set (timers ?st') \<Longrightarrow>
        for_promise u < length (written ?st') \<and>
        for_request u = snd (written ?st' ! for_promise u) \<and>
        due u = fst (written ?st' ! for_promise u) + REQUEST_TIMEOUT"
      using conn_ok_timer [OF ok] by simp
    show "\<And>p. p < length (written ?st') \<Longrightarrow>
        p \<in> fst ` set (settled ?st') \<or> pendingRequests ?st' (ids ?st' ! p) = Some p"
      using conn_ok_promise [OF ok] ids' by simp
    show "distinct (map fst (settled ?st'))" using conn_ok_distinct [OF ok] by simp
    show "\<And>p. p \<in> fst ` set (settled ?st') \<Longrightarrow> p < length (written ?st')"
      using conn_ok_settled [OF ok] by simp
  qed
  then show ?thesis using True by (simp add: sendRequest_def)
next
  case False
  let ?n = "length (written st)" and ?k = "messageId st + 1"
  let ?tm = "\<lparr>due = now st + REQUEST_TIMEOUT, for_request = request, for_promise = ?n\<rparr>"
  let ?st' = "st\<lparr>messageId := ?k, pendingRequests := (pendingRequests st)(?k \<mapsto> ?n),
     written := written st @ [(now st, request)], timers := timers st @ [?tm]\<rparr>"
  have eq: "snd (sendRequest (st\<lparr>messageId := messageId st + 1\<rparr>) request) = ?st'"
    using False rid by (simp add: sendRequest_def Let_def)
  have ids': "ids ?st' = ids st @ [?k]" using rid by (simp add: ids_def)
  have len: "length (ids st) = ?n" by (simp add: ids_def)
  have fresh: "\<And>i. i \<in> set (ids st) \<Longrightarrow> i < ?k" using conn_ok_ids [OF ok] by auto
  have old: "\<And>p. p < ?n \<Longrightarrow> ids st ! p \<noteq> ?k"
    using fresh len by (metis nth_mem less_irrefl)
  show ?thesis unfolding eq
  proof (rule conn_okI)
    show "sorted_wrt (<) (ids ?st')"
      unfolding ids' using conn_ok_ids [OF ok] fresh by (simp add: sorted_wrt_append)
    show "\<And>i. i \<in> set (ids ?st') \<Longrightarrow> 0 < i \<and> i \<le> messageId ?st'"
      unfolding ids' using conn_ok_ids [OF ok] by auto
    show "\<And>k p. pendingRequests ?st' k = Some p \<Longrightarrow>
        p < length (written ?st') \<and> ids ?st' ! p = k \<and> p \<notin> fst ` set (settled ?st') \<and>
        (\<exists>t \<in> set (timers ?st'). for_promise t = p)"
    proof -
      fix k p assume h: "pendingRequests ?st' k = Some p"
      show "p < length (written ?st') \<and> ids ?st' ! p = k \<and> p \<notin> fst ` set (settled ?st') \<and>
        (\<exists>t \<in> set (timers ?st'). for_promise t = p)"
      proof (cases "k = ?k")
        case True
        then have p: "p = ?n" using h by simp
        have "?n \<notin> fst ` set (settled st)" using conn_ok_settled [OF ok, of ?n] by auto
        then show ?thesis unfolding ids' using p True len by (simp add: nth_append)
      next
        case False
        then have h': "pendingRequests st k = Some p" using h by simp
        note b = conn_ok_pending [OF ok h']
        then show ?thesis unfolding ids' using len by (auto simp: nth_append)
      qed
    qed
    show "\<And>u. u \<in> set (timers ?st') \<Longrightarrow>
        for_promise u < length (written ?st') \<and>
        for_request u = snd (written ?st' ! for_promise u) \<and>
        due u = fst (written ?st' ! for_promise u) + REQUEST_TIMEOUT"
    proof -
      fix u assume "u \<in> set (timers ?st')"
      then have "u = ?tm \<or> u \<in> set (timers st)" by auto
      then show "for_promise u < length (written ?st') \<and>
        for_request u = snd (written ?st' ! for_promise u) \<and>
        due u = fst (written ?st' ! for_promise u) + REQUEST_TIMEOUT"
      proof
        assume "u = ?tm" then show ?thesis by simp
      next
        assume "u \<in> set (timers st)"
        from conn_ok_timer [OF ok this] show ?thesis by (simp add: nth_append)
      qed
    qed
    show "\<And>p. p < length (written ?st') \<Longrightarrow>
        p \<in> fst ` set (settled ?st') \<or> pendingRequests ?st' (ids ?st' ! p) = Some p"
    proof -
      fix p assume "p < length (written ?st')"
      then have "p = ?n \<or> p < ?n" by auto
      then show "p \<in> fst ` set (settled ?st') \<or> pendingRequests ?st' (ids ?st' ! p) = Some p"
      proof
        assume "p = ?n" then show ?thesis unfolding ids' using len by (simp add: nth_append)
      next
        assume pl: "p < ?n"
        from conn_ok_promise [OF ok pl] old [OF pl] pl len
        show ?thesis unfolding ids' by (auto simp: nth_append)
      qed
    qed
    show "distinct (map fst (settled ?st'))" using conn_ok_distinct [OF ok] by simp
    show "\<And>p. p \<in> fst ` set (settled ?st') \<Longrightarrow> p < length (written ?st')"
    proof -
      fix p assume "p \<in> fst ` set (settled ?st')"
      then have "p \<in> fst ` set (settled st)" by simp
      from conn_ok_settled [OF ok this] show "p < length (written ?st')" by simp
    qed
  qed
qed

lemma messageId_sendRequest [simp]: "messageId (snd (sendRequest st request)) = messageId st"
  by (simp add: sendRequest_def Let_def)

lemma messageId_listTools:
  "messageId (snd (Stdio_listTools_start st)) =
     (if messageId st < MAX_EXACT then messageId st + 1 else messageId st)"
  by (simp add: Stdio_listTools_start_def nextMessageId_def Let_def)

lemma messageId_callToolImpl:
  "messageId (snd (Stdio_callToolImpl_start st toolName args)) =
     (if messageId st < MAX_EXACT then messageId st + 1 else messageId st)"
  by (simp add: Stdio_callToolImpl_start_def nextMessageId_def Let_def)

lemma messageId_callTool:
  "messageId (snd (Stdio_callTool_start st toolName args)) =
     (if messageId st < MAX_EXACT then messageId st + 1 else messageId st)"
proof -
  let ?st0 = "log_add (ToolCallLog toolName args) st"
  obtain r st1 where h: "Stdio_callToolImpl_start ?st0 toolName args = (r, st1)"
    by (cases "Stdio_callToolImpl_start ?st0 toolName args")
  have "messageId st1 = (if messageId st < MAX_EXACT then messageId st + 1 else messageId st)"
    using messageId_callToolImpl [of ?st0 toolName args] h by simp
  then show ?thesis using h by (cases r) (simp_all add: Stdio_callTool_start_def)
qed

lemma messageId_step:
  "messageId (step rt st ev) =
     (if allocates ev \<and> messageId st < MAX_EXACT then messageId st + 1 else messageId st)"
proof (cases ev)
  case (StdoutData data)
  then show ?thesis using stdout_on_data_keeps [of rt st data] by simp
next
  case TimersPhase
  then show ?thesis
    using run_timers_keeps [of st "filter (\<lambda>t. due t \<le> now st) (timers st)"]
    by (simp add: timers_phase_def)
next
  case ListTools
  then show ?thesis by (simp add: messageId_listTools)
next
  case (CallTool toolName args)
  then show ?thesis by (simp add: messageId_callTool)
qed (simp_all add: Stdio_connect_def Let_def on_exit_def Stdio_close_def split: option.splits)

lemma messageId_step_mono: "messageId st \<le> messageId (step rt st ev)"
  by (simp add: messageId_step)

lemma messageId_run_mono: "messageId st \<le> messageId (run rt st evs)"
proof (induction evs arbitrary: st)
  case Nil
  show ?case by (simp add: run_def)
next
  case (Cons ev evs)
  have "messageId st \<le> messageId (step rt st ev)" by (rule messageId_step_mono)
  also have "\<dots> \<le> messageId (run rt (step rt st ev) evs)" by (rule Cons)
  finally show ?case by (simp add: run_def)
qed

text \<open>A run of fewer than \<open>2^53\<close> events leaves the counter below \<open>2^53\<close>.\<close>

lemma messageId_run_le: "messageId (run rt st evs) \<le> messageId st + length evs"
proof (induction evs arbitrary: st)
  case Nil
  show ?case by (simp add: run_def)
next
  case (Cons ev evs)
  have "messageId (run rt (step rt st ev) evs) \<le> messageId (step rt st ev) + length evs"
    by (rule Cons)
  also have "\<dots> \<le> (messageId st + 1) + length evs" by (simp add: messageId_step)
  finally show ?case by (simp add: run_def)
qed

lemma conn_ok_listTools:
  "conn_ok st \<Longrightarrow> messageId st < MAX_EXACT \<Longrightarrow> conn_ok (snd (Stdio_listTools_start st))"
  using conn_ok_send [of st "\<lparr>jsonrpc = ''2.0'', req_id = messageId st + 1,
    req_method = ''tools/list'', req_params = Obj []\<rparr>"]
  by (simp add: Stdio_listTools_start_def nextMessageId_def)

lemma conn_ok_callToolImpl:
  "conn_ok st \<Longrightarrow> messageId st < MAX_EXACT \<Longrightarrow>
   conn_ok (snd (Stdio_callToolImpl_start st toolName args))"
  using conn_ok_send [of st "\<lparr>jsonrpc = ''2.0'', req_id = messageId st + 1,
    req_method = ''tools/call'',
    req_params = Obj [(''name'', Str toolName), (''arguments'', args)]\<rparr>"]
  by (simp add: Stdio_callToolImpl_start_def nextMessageId_def)

lemma conn_ok_callTool:
  "conn_ok st \<Longrightarrow> messageId st < MAX_EXACT \<Longrightarrow>
   conn_ok (snd (Stdio_callTool_start st toolName args))"
proof -
  assume ok: "conn_ok st" and m: "messageId st < MAX_EXACT"
  let ?st0 = "log_add (ToolCallLog toolName args) st"
  obtain r st1 where h: "Stdio_callToolImpl_start ?st0 toolName args = (r, st1)"
    by (cases "Stdio_callToolImpl_start ?st0 toolName args")
  have "conn_ok st1" using conn_ok_callToolImpl [of ?st0 toolName args] ok m h by simp
  then show ?thesis using h by (cases r) (simp_all add: Stdio_callTool_start_def)
qed

text \<open>
  A step keeps the invariant as long as it leaves the counter below \<open>2^53\<close>: the id it
  takes, if any, is then a new one.
\<close>

lemma conn_ok_step:
  assumes ok: "conn_ok st" and m: "messageId (step rt st ev) < MAX_EXACT"
  shows "conn_ok (step rt st ev)"
proof (cases ev)
  case (Connect child)
  have "conn_ok (snd (Stdio_connect st child)) = conn_ok st"
    by (rule conn_ok_cong) (simp_all add: Stdio_connect_def Let_def)
  then show ?thesis using ok Connect by simp
next
  case (StdoutData data)
  then show ?thesis using ok by (simp add: conn_ok_stdout_on_data)
next
  case (StderrData data)
  then show ?thesis using ok by simp
next
  case (ProcessError e)
  then show ?thesis using ok by simp
next
  case (Exit code)
  have "conn_ok (on_exit st code) = conn_ok st"
    by (rule conn_ok_cong) (simp_all add: on_exit_def)
  then show ?thesis using ok Exit by simp
next
  case (Elapse d)
  have "conn_ok (st\<lparr>now := now st + d\<rparr>) = conn_ok st"
    by (rule conn_ok_cong) simp_all
  then show ?thesis using ok Elapse by simp
next
  case TimersPhase
  then show ?thesis using ok by (simp add: conn_ok_timers_phase)
next
  case ListTools
  have "messageId st < MAX_EXACT"
    using m messageId_step_mono [of st rt ev] by simp
  then show ?thesis using ok ListTools by (simp add: conn_ok_listTools)
next
  case (CallTool toolName args)
  have "messageId st < MAX_EXACT"
    using m messageId_step_mono [of st rt ev] by simp
  then show ?thesis using ok CallTool by (simp add: conn_ok_callTool)
next
  case Close
  have "conn_ok (Stdio_close st) = conn_ok st"
    by (rule conn_ok_cong) (simp_all add: Stdio_close_def split: option.splits)
  then show ?thesis using ok Close by simp
qed

lemma conn_ok_run:
  "conn_ok st \<Longrightarrow> messageId (run rt st evs) < MAX_EXACT \<Longrightarrow> conn_ok (run rt st evs)"
proof (induction evs arbitrary: st)
  case Nil
  then show ?case by (simp add: run_def)
next
  case (Cons ev evs)
  have r: "run rt st (ev # evs) = run rt (step rt st ev) evs" by (simp add: run_def)
  have "messageId (step rt st ev) \<le> messageId (run rt (step rt st ev) evs)"
    by (rule messageId_run_mono)
  then have "messageId (step rt st ev) < MAX_EXACT" using Cons.prems(2) r by simp
  then have "conn_ok (step rt st ev)" using Cons.prems(1) by (simp add: conn_ok_step)
  from Cons.IH [OF this] Cons.prems(2) r show ?case by simp
qed




lemma timers_phase_keeps:
  "now (timers_phase st) = now st \<and> written (timers_phase st) = written st"
  using run_timers_keeps [of st "filter (\<lambda>t. due t \<le> now st) (timers st)"]
  by (simp add: timers_phase_def)






text \<open>
  A chunk that completes one line has that line handled; the other events settle
  nothing.
\<close>

lemma handleResponse_buffer:
  "handleResponse rt (st\<lparr>buffer := b\<rparr>) msg =
     (fst (handleResponse rt st msg), (snd (handleResponse rt st msg))\<lparr>buffer := b\<rparr>)"
  by (simp add: handleResponse_def settle_def Let_def split: sum.splits option.splits)




lemmas stdio_defs = run_def new_StdioMCPConnection_def demo_child_def Stdio_connect_def
        Stdio_callTool_start_def Stdio_callToolImpl_start_def Stdio_listTools_start_def
        nextMessageId_def sendRequest_def log_add_def Let_def stdout_on_data_def frame_def toString_def
        newline_def handle_line_def trim_nonempty_def demo_runtime_def handleResponse_def
        settle_def timers_phase_def run_timer_def timer_callback_def REQUEST_TIMEOUT_def
        on_exit_def Stdio_close_def MAX_EXACT_def is_blank.simps [of "_ # _"]

lemma process_after_exit:
  assumes "process st = None" "\<forall>ev \<in> set evs. \<not> is_Connect ev"
  shows "process (run rt st evs) = None"
  using assms
proof (induction evs arbitrary: st)
  case Nil
  then show ?case by (simp add: run_def)
next
  case (Cons ev evs)
  have "process (step rt st ev) = None"
  proof (cases ev)
    case (Connect child) with Cons.prems show ?thesis by simp
  next
    case (StdoutData data) with Cons.prems show ?thesis
      using stdout_on_data_keeps [of rt st data] by simp
  next
    case (StderrData data) with Cons.prems show ?thesis by simp
  next
    case (ProcessError e) with Cons.prems show ?thesis by simp
  next
    case (Exit code) then show ?thesis by (simp add: on_exit_def)
  next
    case (Elapse d) with Cons.prems show ?thesis by simp
  next
    case TimersPhase with Cons.prems show ?thesis
      using run_timers_keeps [of st "filter (\<lambda>t. due t \<le> now st) (timers st)"]
      by (simp add: timers_phase_def)
  next
    case ListTools with Cons.prems show ?thesis
      by (simp add: Stdio_listTools_start_def nextMessageId_def sendRequest_def Let_def)
  next
    case (CallTool toolName args) with Cons.prems show ?thesis
      by (simp add: Stdio_callTool_start_def Stdio_callToolImpl_start_def nextMessageId_def
          sendRequest_def Let_def)
  next
    case Close with Cons.prems show ?thesis by (simp add: Stdio_close_def)
  qed
  then have "process (run rt (step rt st ev) evs) = None" using Cons by simp
  then show ?case by (simp add: run_def)
qed

lemma config_name_run [simp]: "config_name (run rt st evs) = config_name st"
proof (induction evs arbitrary: st)
  case Nil
  show ?case by (simp add: run_def)
next
  case (Cons ev evs)
  have "config_name (step rt st ev) = config_name st"
  proof (cases ev)
    case (StdoutData data) then show ?thesis
      using stdout_on_data_keeps [of rt st data] by simp
  next
    case TimersPhase then show ?thesis
      using run_timers_keeps [of st "filter (\<lambda>t. due t \<le> now st) (timers st)"]
      by (simp add: timers_phase_def)
  qed (simp_all add: Stdio_connect_def Let_def on_exit_def Stdio_listTools_start_def
        nextMessageId_def sendRequest_def Stdio_callTool_start_def Stdio_callToolImpl_start_def
        Stdio_close_def split: option.splits)
  then show ?case using Cons [of "step rt st ev"] by (simp add: run_def)
qed

text \<open>
  Claim C7.  On one connection, as long as its counter is below \<open>2^53\<close> (after any run
  of fewer than \<open>2^53\<close> events, \<open>messageId_run_le\<close>), the ids of the requests written
  to the child, whether \<open>tools/list\<close> or \<open>tools/call\<close>, increase strictly in the order
  of submission, and each is greater than zero.
\<close>

theorem request_ids_strictly_increasing:
  assumes "messageId (run rt (new_StdioMCPConnection name) evs) < MAX_EXACT"
  shows "sorted_wrt (<) (ids (run rt (new_StdioMCPConnection name) evs)) \<and>
         list_all (\<lambda>i. 0 < i) (ids (run rt (new_StdioMCPConnection name) evs))"
  using conn_ok_ids [OF conn_ok_run [OF conn_ok_new assms]]
  by (simp add: list_all_iff)

theorem request_ids_strictly_increasing_witness:
  "ids (run demo_runtime (new_StdioMCPConnection ''fs'')
          [Connect demo_child, ListTools, CallTool ''read'' Null, ListTools]) = [1, 2, 3] \<and>
   sorted_wrt (<) (ids (run demo_runtime (new_StdioMCPConnection ''fs'')
          [Connect demo_child, ListTools, CallTool ''read'' Null, ListTools]))"
proof -
  let ?st = "run demo_runtime (new_StdioMCPConnection ''fs'')
          [Connect demo_child, ListTools, CallTool ''read'' Null, ListTools]"
  have i: "ids ?st = [1, 2, 3]"
    by (simp add: run_def ids_def new_StdioMCPConnection_def demo_child_def Stdio_connect_def
        Stdio_listTools_start_def Stdio_callTool_start_def Stdio_callToolImpl_start_def
        nextMessageId_def sendRequest_def log_add_def Let_def MAX_EXACT_def)
  have m: "messageId ?st < MAX_EXACT"
    by (simp add: run_def new_StdioMCPConnection_def demo_child_def Stdio_connect_def
        Stdio_listTools_start_def Stdio_callTool_start_def Stdio_callToolImpl_start_def
        nextMessageId_def sendRequest_def log_add_def Let_def MAX_EXACT_def)
  have "sorted_wrt (<) (ids ?st)"
    by (rule conjunct1 [OF request_ids_strictly_increasing [OF m]])
  with i show ?thesis by blast
qed



text \<open>
  Claim C9.  After the \<open>exit\<close> event of the child, and whatever happens next short of a
  new \<open>connect\<close>, \<open>isConnected()\<close> is false and \<open>callTool\<close> returns at once, without
  registering a pending request or a timer, a result of status error that carries the
  "not connected" error.
\<close>

theorem after_exit_not_connected:
  assumes "\<forall>ev \<in> set evs. \<not> is_Connect ev"
    and "st' = run rt (on_exit st code) evs"
  shows "\<not> isConnected st' \<and>
    fst (Stdio_callTool_start st' toolName args) =
      Returned \<lparr>status = failure,
                content = ''Tool execution failed: MCP server '' @ config_name st @
                  '' not connected'',
                metadata = None\<rparr> \<and>
    pendingRequests (snd (Stdio_callTool_start st' toolName args)) = pendingRequests st' \<and>
    timers (snd (Stdio_callTool_start st' toolName args)) = timers st' \<and>
    written (snd (Stdio_callTool_start st' toolName args)) = written st'"
proof -
  have p0: "process (on_exit st code) = None" by (simp add: on_exit_def)
  have p: "process st' = None" using process_after_exit [OF p0 assms(1)] assms(2) by simp
  have n: "config_name st' = config_name st" using assms(2) by (simp add: on_exit_def)
  show ?thesis using p n
    by (simp add: isConnected_def Stdio_callTool_start_def Stdio_callToolImpl_start_def
        nextMessageId_def sendRequest_def errorResult_def Let_def)
qed

theorem after_exit_not_connected_witness:
  \<open>\<not> isConnected
       (run demo_runtime
          (on_exit (snd (Stdio_connect (new_StdioMCPConnection ''fs'') demo_child)) (Some 1))
          [StdoutData demo_response, Elapse 5, Close]) \<and>
   fst (Stdio_callTool_start
          (run demo_runtime
             (on_exit (snd (Stdio_connect (new_StdioMCPConnection ''fs'') demo_child)) (Some 1))
             [StdoutData demo_response, Elapse 5, Close])
          ''read'' Null) =
     Returned \<lparr>status = failure,
               content = ''Tool execution failed: MCP server fs not connected'',
               metadata = None\<rparr>\<close>
proof -
  have h: "\<forall>ev \<in> set [StdoutData demo_response, Elapse 5, Close]. \<not> is_Connect ev" by simp
  have n: "config_name (snd (Stdio_connect (new_StdioMCPConnection ''fs'') demo_child)) = ''fs''"
    by (simp add: Stdio_connect_def new_StdioMCPConnection_def Let_def)
  from after_exit_not_connected [OF h refl, of demo_runtime
      "snd (Stdio_connect (new_StdioMCPConnection ''fs'') demo_child)" "Some 1" "''read''" Null] n
  show ?thesis by simp
qed

section \<open>Proofs: framing of the stdout stream\<close>

lemma split_nl_nonempty [simp]: "split_nl s \<noteq> []"
  by (induction s) (auto split: list.splits)

lemma split_nl_append:
  "split_nl (a @ b) = butlast (split_nl a) @ split_nl (last (split_nl a) @ b)"
proof (induction a)
  case Nil
  show ?case by simp
next
  case (Cons c cs)
  obtain x xs where s: "split_nl cs = x # xs" by (cases "split_nl cs") simp_all
  show ?case
  proof (cases "c = newline")
    case True
    then show ?thesis using Cons s by simp
  next
    case False
    show ?thesis
    proof (cases xs)
      case Nil
      with False Cons s show ?thesis by (simp split: list.splits)
    next
      case (Cons y ys)
      with False Cons.IH s show ?thesis by (simp split: list.splits)
    qed
  qed
qed

lemma split_nl_no_newline: "newline \<notin> set s \<Longrightarrow> split_nl s = [s]"
  by (induction s) auto

lemma last_split_nl_no_newline: "newline \<notin> set (last (split_nl s))"
  by (induction s) (auto split: list.splits)

lemma frame_buffer_no_newline: "newline \<notin> set (snd (frame buf data))"
  by (simp add: frame_def Let_def last_split_nl_no_newline)

text \<open>
  On decoded text the framing does not see the chunk boundaries: the lines handled are
  the complete lines of the buffer followed by all the decoded chunks, and the buffer
  left is the incomplete last piece.
\<close>

lemma read_loop_decoded:
  assumes "newline \<notin> set buf"
  shows "read_loop buf chunks =
    (butlast (split_nl (buf @ concat (map toString chunks))),
     last (split_nl (buf @ concat (map toString chunks))))"
  using assms
proof (induction chunks arbitrary: buf)
  case Nil
  then show ?case by (simp add: split_nl_no_newline)
next
  case (Cons d ds)
  let ?b = "snd (frame buf d)"
  have b: "newline \<notin> set ?b" by (rule frame_buffer_no_newline)
  have f: "frame buf d = (butlast (split_nl (buf @ toString d)), last (split_nl (buf @ toString d)))"
    by (simp add: frame_def Let_def)
  have "split_nl ((buf @ toString d) @ concat (map toString ds)) =
        butlast (split_nl (buf @ toString d)) @
        split_nl (last (split_nl (buf @ toString d)) @ concat (map toString ds))"
    by (rule split_nl_append)
  then show ?case using Cons.IH [OF b] f
    by (simp add: butlast_append last_append)
qed

lemma utf8_scan_ascii:
  "\<forall>c \<in> set s. (of_char c :: nat) < 128 \<Longrightarrow> utf8_scan 0 0x80 0xBF [] s = s"
  by (induction s) (simp_all add: Let_def)

lemma toString_ascii: "\<forall>c \<in> set s. (of_char c :: nat) < 128 \<Longrightarrow> toString s = s"
  by (simp add: toString_def utf8_scan_ascii)

text \<open>
  For a stream of ASCII bytes the lines handled depend on the concatenated stream only,
  not on how it arrives in chunks.
\<close>

lemma read_loop_ascii:
  assumes "newline \<notin> set buf" "\<forall>d \<in> set chunks. \<forall>c \<in> set d. (of_char c :: nat) < 128"
  shows "read_loop buf chunks =
    (butlast (split_nl (buf @ concat chunks)), last (split_nl (buf @ concat chunks)))"
proof -
  have "map toString chunks = chunks"
    using assms(2) by (simp add: map_idI toString_ascii)
  then show ?thesis using read_loop_decoded [OF assms(1), of chunks] by simp
qed


lemma handleResponse_logger:
  "handleResponse rt (st\<lparr>logger := l\<rparr>) msg =
     (fst (handleResponse rt st msg), (snd (handleResponse rt st msg))\<lparr>logger := l\<rparr>)"
  by (simp add: handleResponse_def settle_def Let_def split: sum.splits option.splits)

lemma handle_line_forget:
  "forget_log (handle_line rt (st\<lparr>logger := l\<rparr>) line) = forget_log (handle_line rt st line)"
proof (cases "trim_nonempty line")
  case False
  then show ?thesis by (simp add: handle_line_def forget_log_def)
next
  case True
  show ?thesis
  proof (cases "JSON_parse rt line")
    case (Inl e)
    with True show ?thesis by (simp add: handle_line_def forget_log_def log_add_def)
  next
    case (Inr msg)
    obtain r st' where h: "handleResponse rt st msg = (r, st')"
      by (cases "handleResponse rt st msg")
    then have h': "handleResponse rt (st\<lparr>logger := l\<rparr>) msg = (r, st'\<lparr>logger := l\<rparr>)"
      by (simp add: handleResponse_logger)
    show ?thesis using True Inr h h'
      by (cases r) (simp_all add: handle_line_def forget_log_def log_add_def)
  qed
qed

lemma handle_line_forget':
  "forget_log st1 = forget_log st2 \<Longrightarrow>
   forget_log (handle_line rt st1 line) = forget_log (handle_line rt st2 line)"
  using handle_line_forget [where rt = rt and st = st1 and l = "[]" and line = line]
    handle_line_forget [where rt = rt and st = st2 and l = "[]" and line = line]
  by (simp add: forget_log_def)

lemma handle_line_unparseable:
  "isl (JSON_parse rt line) \<Longrightarrow> forget_log (handle_line rt st line) = forget_log st"
  by (cases "JSON_parse rt line") (simp_all add: handle_line_def forget_log_def log_add_def)

lemma handle_lines_unparseable:
  "forget_log st1 = forget_log st2 \<Longrightarrow>
   forget_log (foldl (handle_line rt) st1 ls) =
   forget_log (foldl (handle_line rt) st2 (filter (\<lambda>l. \<not> isl (JSON_parse rt l)) ls))"
proof (induction ls arbitrary: st1 st2)
  case Nil
  then show ?case by simp
next
  case (Cons l ls)
  show ?case
  proof (cases "isl (JSON_parse rt l)")
    case True
    have "forget_log (handle_line rt st1 l) = forget_log st2"
      using handle_line_unparseable [OF True, of st1] Cons.prems by simp
    from Cons.IH [OF this] True show ?thesis by simp
  next
    case False
    have "forget_log (handle_line rt st1 l) = forget_log (handle_line rt st2 l)"
      by (rule handle_line_forget' [OF Cons.prems])
    from Cons.IH [OF this] False show ?thesis by simp
  qed
qed

lemma handle_line_buffer:
  "handle_line rt (st\<lparr>buffer := b\<rparr>) line = (handle_line rt st line)\<lparr>buffer := b\<rparr>"
proof (cases "trim_nonempty line")
  case False
  then show ?thesis by (simp add: handle_line_def)
next
  case True
  show ?thesis
  proof (cases "JSON_parse rt line")
    case (Inl e)
    with True show ?thesis by (simp add: handle_line_def log_add_def)
  next
    case (Inr msg)
    obtain r st' where h: "handleResponse rt st msg = (r, st')"
      by (cases "handleResponse rt st msg")
    then have h': "handleResponse rt (st\<lparr>buffer := b\<rparr>) msg = (r, st'\<lparr>buffer := b\<rparr>)"
      by (simp add: handleResponse_buffer)
    show ?thesis using True Inr h h'
      by (cases r) (simp_all add: handle_line_def log_add_def)
  qed
qed

lemma handle_lines_buffer:
  "foldl (handle_line rt) (st\<lparr>buffer := b\<rparr>) ls = (foldl (handle_line rt) st ls)\<lparr>buffer := b\<rparr>"
  by (induction ls arbitrary: st) (simp_all add: handle_line_buffer)

text \<open>
  A sequence of \<open>data\<close> events runs the loop body on the lines of \<open>read_loop\<close>, and
  leaves the buffer of \<open>read_loop\<close>.
\<close>

lemma run_stdout_data:
  "run rt st (map StdoutData chunks) =
     (foldl (handle_line rt) st (fst (read_loop (buffer st) chunks)))
       \<lparr>buffer := snd (read_loop (buffer st) chunks)\<rparr>"
proof (induction chunks arbitrary: st)
  case Nil
  show ?case by (simp add: run_def)
next
  case (Cons d ds)
  let ?st1 = "stdout_on_data rt st d"
  obtain ls b where f: "frame (buffer st) d = (ls, b)" by (cases "frame (buffer st) d")
  obtain ms c where r: "read_loop b ds = (ms, c)" by (cases "read_loop b ds")
  have st1: "?st1 = (foldl (handle_line rt) st ls)\<lparr>buffer := b\<rparr>"
    using f by (simp add: stdout_on_data_unfold handle_lines_buffer)
  have b1: "buffer ?st1 = b" using st1 by simp
  have "run rt st (map StdoutData (d # ds)) = run rt ?st1 (map StdoutData ds)"
    by (simp add: run_def)
  also have "\<dots> = (foldl (handle_line rt) ?st1 ms)\<lparr>buffer := c\<rparr>"
    using Cons.IH [of ?st1] b1 r by simp
  also have "\<dots> = (foldl (handle_line rt) st (ls @ ms))\<lparr>buffer := c\<rparr>"
    by (simp add: st1 handle_lines_buffer)
  finally show ?case using f r by simp
qed

lemma forget_log_buffer: "forget_log (st\<lparr>buffer := b\<rparr>) = (forget_log st)\<lparr>buffer := b\<rparr>"
  by (simp add: forget_log_def)

text \<open>
  Claim C5, at an input where the code departs from it.  The bytes of one response line
  whose text holds a two-byte character are handled as that line when they arrive in one
  chunk; when the chunks part inside the character, each chunk is decoded on its own and
  the line handled holds two replacement characters instead, and the caller's request
  is resolved with a different result.  (For chunks of decoded
  text, and so for every stream of ASCII bytes, the lines handled do not depend on the
  chunk boundaries: \<open>read_loop_decoded\<close>, \<open>read_loop_ascii\<close>.)
\<close>

theorem split_character_changes_line:
  \<open>accented_first @ accented_second = accented_response \<and>
   read_loop [] [accented_response] =
     ([''{"id":1,"result":"'' @ [CHR 0xC3, CHR 0xA9] @ ''"}''], []) \<and>
   read_loop [] [accented_first, accented_second] =
     ([''{"id":1,"result":"'' @ REPLACEMENT @ REPLACEMENT @ ''"}''], []) \<and>
   settled (run accent_runtime (new_StdioMCPConnection ''fs'')
      [Connect demo_child, CallTool ''read'' Null, StdoutData accented_response]) =
     [(0, Resolved (Str [CHR 0xC3, CHR 0xA9]))] \<and>
   settled (run accent_runtime (new_StdioMCPConnection ''fs'')
      [Connect demo_child, CallTool ''read'' Null,
       StdoutData accented_first, StdoutData accented_second]) =
     [(0, Resolved (Str (REPLACEMENT @ REPLACEMENT)))]\<close>
  by (simp add: accented_first_def accented_second_def accented_response_def
      REPLACEMENT_def stdio_defs accent_runtime_def)

theorem split_character_changes_line_witness:
  \<open>fst (read_loop [] [accented_first, accented_second]) \<noteq>
     fst (read_loop [] [accented_response]) \<and>
   settled (run accent_runtime (new_StdioMCPConnection ''fs'')
      [Connect demo_child, CallTool ''read'' Null,
       StdoutData accented_first, StdoutData accented_second]) \<noteq>
   settled (run accent_runtime (new_StdioMCPConnection ''fs'')
      [Connect demo_child, CallTool ''read'' Null, StdoutData accented_response])\<close>
  using split_character_changes_line by (simp add: REPLACEMENT_def)

text \<open>
  Claim C6.  Over any sequence of chunks, the connection ends, but for its log, in the
  state in which handling only the lines that parse would leave it, with the buffer that
  the framing alone determines; and a line that does not parse (and is not blank) adds
  one error entry to the log and changes nothing else.  The handler returns a state on
  every input: nothing is thrown out of the loop.
\<close>

theorem unparseable_lines_are_discarded:
  "forget_log (run rt st (map StdoutData chunks)) =
     forget_log
       ((foldl (handle_line rt) st
           (filter (\<lambda>l. \<not> isl (JSON_parse rt l)) (fst (read_loop (buffer st) chunks))))
          \<lparr>buffer := snd (read_loop (buffer st) chunks)\<rparr>) \<and>
   buffer (run rt st (map StdoutData chunks)) = snd (read_loop (buffer st) chunks) \<and>
   (JSON_parse rt line = Inl e \<and> trim_nonempty line \<longrightarrow>
      handle_line rt st line =
        log_add (ErrorLog (''Failed to parse MCP response: '' @ line) (Some e)) st)"
proof (intro conjI impI)
  let ?ls = "fst (read_loop (buffer st) chunks)" and ?b = "snd (read_loop (buffer st) chunks)"
  have "forget_log (foldl (handle_line rt) st ?ls) =
        forget_log (foldl (handle_line rt) st (filter (\<lambda>l. \<not> isl (JSON_parse rt l)) ?ls))"
    by (rule handle_lines_unparseable) simp
  then have "forget_log ((foldl (handle_line rt) st ?ls)\<lparr>buffer := ?b\<rparr>) =
        forget_log ((foldl (handle_line rt) st (filter (\<lambda>l. \<not> isl (JSON_parse rt l)) ?ls))
          \<lparr>buffer := ?b\<rparr>)"
    by (simp only: forget_log_buffer)
  then show "forget_log (run rt st (map StdoutData chunks)) =
     forget_log ((foldl (handle_line rt) st (filter (\<lambda>l. \<not> isl (JSON_parse rt l)) ?ls))
          \<lparr>buffer := ?b\<rparr>)"
    by (simp only: run_stdout_data)
  show "buffer (run rt st (map StdoutData chunks)) = ?b"
    by (simp add: run_stdout_data)
next
  assume "JSON_parse rt line = Inl e \<and> trim_nonempty line"
  then show "handle_line rt st line =
        log_add (ErrorLog (''Failed to parse MCP response: '' @ line) (Some e)) st"
    by (simp add: handle_line_def)
qed

theorem unparseable_lines_are_discarded_witness:
  \<open>handle_line demo_runtime (new_StdioMCPConnection ''fs'') ''oops'' =
     log_add (ErrorLog ''Failed to parse MCP response: oops''
                (Some (SyntaxError ''Unexpected token'')))
       (new_StdioMCPConnection ''fs'') \<and>
   buffer (run demo_runtime (new_StdioMCPConnection ''fs'') (map StdoutData demo_chunks)) = ''{''\<close>
proof -
  have p: "JSON_parse demo_runtime ''oops'' = Inl (SyntaxError ''Unexpected token'') \<and>
           trim_nonempty ''oops''"
    by (simp add: demo_runtime_def trim_nonempty_def is_blank.simps [of "_ # _"])
  have r: "snd (read_loop (buffer (new_StdioMCPConnection ''fs'')) demo_chunks) = ''{''"
    by (simp add: demo_chunks_def new_StdioMCPConnection_def frame_def toString_def newline_def
        Let_def)
  note t = unparseable_lines_are_discarded [of demo_runtime "new_StdioMCPConnection ''fs''"
      demo_chunks "''oops''" "SyntaxError ''Unexpected token''"]
  have b: "buffer (run demo_runtime (new_StdioMCPConnection ''fs'') (map StdoutData demo_chunks)) =
           snd (read_loop (buffer (new_StdioMCPConnection ''fs'')) demo_chunks)"
    by (rule conjunct1 [OF conjunct2 [OF t]])
  have h: "handle_line demo_runtime (new_StdioMCPConnection ''fs'') ''oops'' =
     log_add (ErrorLog (''Failed to parse MCP response: '' @ ''oops'')
                (Some (SyntaxError ''Unexpected token'')))
       (new_StdioMCPConnection ''fs'')"
    by (rule mp [OF conjunct2 [OF conjunct2 [OF t]] p])
  have b': "buffer (run demo_runtime (new_StdioMCPConnection ''fs'') (map StdoutData demo_chunks)) = ''{''"
    by (rule trans [OF b r])
  from h have h': \<open>handle_line demo_runtime (new_StdioMCPConnection ''fs'') ''oops'' =
     log_add (ErrorLog ''Failed to parse MCP response: oops''
                (Some (SyntaxError ''Unexpected token'')))
       (new_StdioMCPConnection ''fs'')\<close> by simp
  show ?thesis by (rule conjI [OF h' b'])
qed

text \<open>
  Claim C3, as the code has it.  \<open>connect\<close> of a stdio connection succeeds exactly when
  the spawned child has its stdout and stdin, and writes no request; the connection then
  counts as connected unless the child is flagged killed.  \<open>connect\<close> of an HTTP
  connection succeeds exactly when its \<open>listTools\<close> round trip succeeds, which takes an
  \<open>ok\<close> response to the POST of \<open>/tools/list\<close>; \<open>isConnected\<close> of an HTTP connection
  is true throughout.
\<close>

theorem connect_round_trips:
  "(fst (Stdio_connect st child) = Inr () \<longleftrightarrow> stdout child \<and> stdin child) \<and>
   written (snd (Stdio_connect st child)) = written st \<and>
   pendingRequests (snd (Stdio_connect st child)) = pendingRequests st \<and>
   messageId (snd (Stdio_connect st child)) = messageId st \<and>
   (isConnected (snd (Stdio_connect st child)) \<longleftrightarrow> \<not> killed child) \<and>
   (fst (Http_connect rt fetch cfg) = Inr () \<longleftrightarrow>
      (\<exists>tools. Http_listTools rt fetch cfg = Inr tools)) \<and>
   (fst (Http_connect rt fetch cfg) = Inr () \<longrightarrow>
      (\<exists>response.
         fetch (http_url cfg @ ''/tools/list'')
           \<lparr>fetch_method = ''POST'', fetch_headers = merged_headers cfg,
            fetch_body = JSON_stringify rt (Obj [])\<rparr> = Inr response \<and>
         ok response)) \<and>
   Http_isConnected cfg"
  by (auto simp: Stdio_connect_def Let_def isConnected_def Http_connect_def Http_isConnected_def
      Http_listTools_def httpRequest_def split: sum.splits if_splits)

theorem connect_round_trips_witness:
  "fst (Stdio_connect (new_StdioMCPConnection ''fs'')
          \<lparr>stdin = False, stdout = True, killed = False\<rparr>) \<noteq> Inr () \<and>
   fst (Stdio_connect (new_StdioMCPConnection ''fs'') demo_child) = Inr () \<and>
   written (snd (Stdio_connect (new_StdioMCPConnection ''fs'') demo_child)) = []"
  using connect_round_trips [of "new_StdioMCPConnection ''fs''"
      "\<lparr>stdin = False, stdout = True, killed = False\<rparr>" demo_runtime fetch_refused demo_http]
    connect_round_trips [of "new_StdioMCPConnection ''fs''" demo_child demo_runtime
      fetch_refused demo_http]
  by (simp add: demo_child_def new_StdioMCPConnection_def)

text \<open>
  Against claim C3 as stated: a stdio \<open>connect\<close> reports success, and the connection
  is connected, with no request written; an HTTP \<open>connect\<close> fails when its request
  fails.
\<close>

theorem connect_round_trip_counterexample:
  "fst (Stdio_connect (new_StdioMCPConnection ''fs'') demo_child) = Inr () \<and>
   isConnected (snd (Stdio_connect (new_StdioMCPConnection ''fs'') demo_child)) \<and>
   written (snd (Stdio_connect (new_StdioMCPConnection ''fs'') demo_child)) = [] \<and>
   fst (Http_connect demo_runtime fetch_refused demo_http) =
     Inl (Error ''Failed to connect to HTTP MCP server web: fetch failed'')"
  by (simp add: Stdio_connect_def new_StdioMCPConnection_def demo_child_def Let_def
      isConnected_def log_add_def Http_connect_def Http_listTools_def httpRequest_def
      fetch_refused_def demo_http_def)

section \<open>Proofs: the client\<close>

lemma client_log_fields [simp]:
  "stdioServers (client_log l cl) = stdioServers cl"
  "httpServers (client_log l cl) = httpServers cl"
  "discoveredTools (client_log l cl) = discoveredTools cl"
  "client_logger (client_log l cl) = client_logger cl @ [l]"
  by (simp_all add: client_log_def)

lemma forget_client_log_fields [simp]:
  "stdioServers (forget_client_log cl) = stdioServers cl"
  "httpServers (forget_client_log cl) = httpServers cl"
  "discoveredTools (forget_client_log cl) = discoveredTools cl"
  "client_logger (forget_client_log cl) = []"
  by (simp_all add: forget_client_log_def)

lemma forget_client_log_eq:
  "forget_client_log cl1 = forget_client_log cl2 \<longleftrightarrow>
     stdioServers cl1 = stdioServers cl2 \<and> httpServers cl1 = httpServers cl2 \<and>
     discoveredTools cl1 = discoveredTools cl2"
  by (cases cl1, cases cl2) (auto simp: forget_client_log_def)

subsection \<open>Discovery\<close>

lemma discover_from_fields:
  "stdioServers (discover_from ty cl entry) = stdioServers cl \<and>
   httpServers (discover_from ty cl entry) = httpServers cl \<and>
   discoveredTools (discover_from ty cl entry) = discoveredTools cl @ tools_of entry \<and>
   client_logger (discover_from ty cl entry) = client_logger cl @ discovery_lines ty entry"
  by (simp add: discover_from_def tools_of_def discovery_line_def discovery_lines_def Let_def
      split: sum.splits)

lemma discoverToolsFromConnections_fields:
  "stdioServers (discoverToolsFromConnections cl entries ty) = stdioServers cl \<and>
   httpServers (discoverToolsFromConnections cl entries ty) = httpServers cl \<and>
   discoveredTools (discoverToolsFromConnections cl entries ty) =
     discoveredTools cl @ concat (map tools_of entries) \<and>
   client_logger (discoverToolsFromConnections cl entries ty) =
     client_logger cl @ concat (map (discovery_lines ty) entries)"
  unfolding discoverToolsFromConnections_def
proof (induction entries arbitrary: cl)
  case Nil
  show ?case by simp
next
  case (Cons entry entries)
  show ?case
    using Cons [of "discover_from ty cl entry"] discover_from_fields [of ty cl entry]
    by simp
qed

lemma discoverTools_fields:
  "stdioServers (snd (discoverTools cl)) = stdioServers cl \<and>
   httpServers (snd (discoverTools cl)) = httpServers cl \<and>
   discoveredTools (snd (discoverTools cl)) =
     concat (map tools_of (stdioServers cl @ httpServers cl)) \<and>
   fst (discoverTools cl) = concat (map tools_of (stdioServers cl @ httpServers cl)) \<and>
   client_logger (snd (discoverTools cl)) =
     client_logger cl @ concat (map (discovery_lines ''stdio'') (stdioServers cl)) @
       concat (map (discovery_lines ''HTTP'') (httpServers cl))"
proof -
  let ?cl0 = "cl\<lparr>discoveredTools := []\<rparr>"
  let ?cl1 = "discoverToolsFromConnections ?cl0 (stdioServers cl) ''stdio''"
  let ?cl2 = "discoverToolsFromConnections ?cl1 (httpServers cl) ''HTTP''"
  note a = discoverToolsFromConnections_fields [of ?cl0 "stdioServers cl" "''stdio''"]
  note b = discoverToolsFromConnections_fields [of ?cl1 "httpServers cl" "''HTTP''"]
  have h: "httpServers ?cl1 = httpServers cl" using a by simp
  have d: "discoverTools cl = (discoveredTools ?cl2, ?cl2)"
    by (simp add: discoverTools_def Let_def h)
  show ?thesis unfolding d using a b by simp
qed

lemma in_concat_map: "x \<in> set xs \<Longrightarrow> y \<in> set (f x) \<Longrightarrow> y \<in> set (concat (map f xs))"
  by (induction xs) auto

subsection \<open>initialize\<close>

text \<open>
  What the \<open>try\<close> block does to the client: it throws and only the log grows; or the
  transport is unknown and only the log grows; or the configuration connects and its
  connection is put into the registry of its transport.
\<close>

lemma initialize_try_cases:
  "(\<exists>e l. (\<forall>cl. initialize_try w cl config =
              (Inl e, cl\<lparr>client_logger := client_logger cl @ l\<rparr>)) \<and>
      (\<forall>conn. \<not> connects w config conn)) \<or>
   (\<exists>l. (\<forall>cl. initialize_try w cl config =
              (Inr (), cl\<lparr>client_logger := client_logger cl @ l\<rparr>)) \<and>
      (\<forall>conn. \<not> connects w config conn)) \<or>
   (\<exists>l conn. (\<forall>cl. initialize_try w cl config =
        (Inr (), cl\<lparr>stdioServers := AList.update (cfg_name config) conn (stdioServers cl),
                    client_logger := client_logger cl @ l\<rparr>)) \<and>
      connects w config conn \<and> (\<forall>c. connects w config c \<longrightarrow> conn = c)) \<or>
   (\<exists>l conn. (\<forall>cl. initialize_try w cl config =
        (Inr (), cl\<lparr>httpServers := AList.update (cfg_name config) conn (httpServers cl),
                    client_logger := client_logger cl @ l\<rparr>)) \<and>
      connects w config conn \<and> (\<forall>c. connects w config c \<longrightarrow> conn = c))"
proof (cases "cfg_transport config = ''stdio''")
  case True
  show ?thesis
  proof (cases "cfg_command config")
    case None
    have "\<forall>cl. initialize_try w cl config =
        (Inl (Error (''Stdio server '' @ cfg_name config @ '' missing command or args'')),
         cl\<lparr>client_logger := client_logger cl @ []\<rparr>)"
      using True None by (simp add: initialize_try_def initializeStdioServer_def)
    moreover have "\<forall>conn. \<not> connects w config conn"
      using True None by (simp add: connects_def)
    ultimately show ?thesis by blast
  next
    case (Some command)
    show ?thesis
    proof (cases "cfg_args config")
      case None
      have "\<forall>cl. initialize_try w cl config =
          (Inl (Error (''Stdio server '' @ cfg_name config @ '' missing command or args'')),
           cl\<lparr>client_logger := client_logger cl @ []\<rparr>)"
        using True Some None by (simp add: initialize_try_def initializeStdioServer_def)
      moreover have "\<forall>conn. \<not> connects w config conn"
        using True Some None by (simp add: connects_def)
      ultimately show ?thesis by blast
    next
      case args: (Some args)
      show ?thesis
      proof (cases "command = []")
        case e: True
        have "\<forall>cl. initialize_try w cl config =
            (Inl (Error (''Stdio server '' @ cfg_name config @ '' missing command or args'')),
             cl\<lparr>client_logger := client_logger cl @ []\<rparr>)"
          using True Some args e by (simp add: initialize_try_def initializeStdioServer_def)
        moreover have "\<forall>conn. \<not> connects w config conn"
          using True Some args e by (simp add: connects_def)
        ultimately show ?thesis by blast
      next
        case ne: False
        let ?cfg = "\<lparr>stdio_name = cfg_name config, stdio_command = command, stdio_args = args\<rparr>"
        let ?c = "Stdio_connect (new_StdioMCPConnection (cfg_name config)) (spawn w ?cfg)"
        show ?thesis
        proof (cases "fst ?c")
          case (Inl e)
          have "\<forall>cl. initialize_try w cl config =
              (Inl e, cl\<lparr>client_logger := client_logger cl @
                            (logger (snd ?c) @ spawn_logged w ?cfg)\<rparr>)"
            using True Some args ne Inl
            by (simp add: initialize_try_def initializeStdioServer_def Let_def)
          moreover have "\<forall>conn. \<not> connects w config conn"
            using True Some args ne Inl by (simp add: connects_def)
          ultimately show ?thesis by blast
        next
          case (Inr u)
          have "\<forall>cl. initialize_try w cl config =
              (Inr (), cl\<lparr>stdioServers :=
                            AList.update (cfg_name config) (stdio_server w ?cfg) (stdioServers cl),
                          client_logger := client_logger cl @
                            (logger (snd ?c) @ spawn_logged w ?cfg @
                             [Info (''Initialized stdio MCP server: '' @ cfg_name config)])\<rparr>)"
            using True Some args ne Inr
            by (simp add: initialize_try_def initializeStdioServer_def Let_def client_log_def)
          moreover have "connects w config (stdio_server w ?cfg) \<and>
              (\<forall>c. connects w config c \<longrightarrow> stdio_server w ?cfg = c)"
            using True Some args ne Inr by (simp add: connects_def)
          ultimately show ?thesis by blast
        qed
      qed
    qed
  qed
next
  case False
  show ?thesis
  proof (cases "cfg_transport config = ''http''")
    case h: True
    show ?thesis
    proof (cases "cfg_url config")
      case None
      have "\<forall>cl. initialize_try w cl config =
          (Inl (Error (''HTTP server '' @ cfg_name config @ '' missing url'')),
           cl\<lparr>client_logger := client_logger cl @ []\<rparr>)"
        using False h None by (simp add: initialize_try_def initializeHttpServer_def)
      moreover have "\<forall>conn. \<not> connects w config conn"
        using False h None by (simp add: connects_def)
      ultimately show ?thesis by blast
    next
      case (Some u)
      show ?thesis
      proof (cases "u = []")
        case e: True
        have "\<forall>cl. initialize_try w cl config =
            (Inl (Error (''HTTP server '' @ cfg_name config @ '' missing url'')),
             cl\<lparr>client_logger := client_logger cl @ []\<rparr>)"
          using False h Some e by (simp add: initialize_try_def initializeHttpServer_def)
        moreover have "\<forall>conn. \<not> connects w config conn"
          using False h Some e by (simp add: connects_def)
        ultimately show ?thesis by blast
      next
        case ne: False
        let ?cfg = "\<lparr>http_name = cfg_name config, http_url = u,
                      http_headers = cfg_headers config\<rparr>"
        let ?c = "Http_connect (world_runtime w) (world_fetch w) ?cfg"
        show ?thesis
        proof (cases "fst ?c")
          case (Inl e)
          have "\<forall>cl. initialize_try w cl config =
              (Inl e, cl\<lparr>client_logger := client_logger cl @
                            during (snd ?c) (fetch_logged w ?cfg)\<rparr>)"
            using False h Some ne Inl
            by (simp add: initialize_try_def initializeHttpServer_def Let_def)
          moreover have "\<forall>conn. \<not> connects w config conn"
            using False h Some ne Inl by (simp add: connects_def)
          ultimately show ?thesis by blast
        next
          case (Inr x)
          have "\<forall>cl. initialize_try w cl config =
              (Inr (), cl\<lparr>httpServers :=
                            AList.update (cfg_name config) (http_server w ?cfg) (httpServers cl),
                          client_logger := client_logger cl @
                            (during (snd ?c) (fetch_logged w ?cfg) @
                             [Info (''Initialized HTTP MCP server: '' @ cfg_name config)])\<rparr>)"
            using False h Some ne Inr
            by (simp add: initialize_try_def initializeHttpServer_def Let_def client_log_def)
          moreover have "connects w config (http_server w ?cfg) \<and>
              (\<forall>c. connects w config c \<longrightarrow> http_server w ?cfg = c)"
            using False h Some ne Inr by (simp add: connects_def)
          ultimately show ?thesis by blast
        qed
      qed
    qed
  next
    case u: False
    have "\<forall>cl. initialize_try w cl config =
        (Inr (), cl\<lparr>client_logger := client_logger cl @
           [ErrorLog (''Unknown transport type: '' @ cfg_transport config) None]\<rparr>)"
      using False u by (simp add: initialize_try_def client_log_def)
    moreover have "\<forall>conn. \<not> connects w config conn"
      using False u by (simp add: connects_def)
    ultimately show ?thesis by blast
  qed
qed


lemma initialize_try_at:
  obtains (thrown) e l where
      "initialize_try w cl config = (Inl e, cl\<lparr>client_logger := client_logger cl @ l\<rparr>)"
      "initialize_try w cl' config = (Inl e, cl'\<lparr>client_logger := client_logger cl' @ l\<rparr>)"
      "\<And>conn. \<not> connects w config conn"
  | (skipped) l where
      "initialize_try w cl config = (Inr (), cl\<lparr>client_logger := client_logger cl @ l\<rparr>)"
      "initialize_try w cl' config = (Inr (), cl'\<lparr>client_logger := client_logger cl' @ l\<rparr>)"
      "\<And>conn. \<not> connects w config conn"
  | (stdio) l conn where
      "initialize_try w cl config =
        (Inr (), cl\<lparr>stdioServers := AList.update (cfg_name config) conn (stdioServers cl),
                    client_logger := client_logger cl @ l\<rparr>)"
      "initialize_try w cl' config =
        (Inr (), cl'\<lparr>stdioServers := AList.update (cfg_name config) conn (stdioServers cl'),
                    client_logger := client_logger cl' @ l\<rparr>)"
      "connects w config conn" "\<And>c. connects w config c \<Longrightarrow> conn = c"
  | (http) l conn where
      "initialize_try w cl config =
        (Inr (), cl\<lparr>httpServers := AList.update (cfg_name config) conn (httpServers cl),
                    client_logger := client_logger cl @ l\<rparr>)"
      "initialize_try w cl' config =
        (Inr (), cl'\<lparr>httpServers := AList.update (cfg_name config) conn (httpServers cl'),
                    client_logger := client_logger cl' @ l\<rparr>)"
      "connects w config conn" "\<And>c. connects w config c \<Longrightarrow> conn = c"
  using initialize_try_cases [of w config] by blast


lemma initialize_server_at:
  obtains (skipped) l where
      "initialize_server w cl config = cl\<lparr>client_logger := client_logger cl @ l\<rparr>"
      "initialize_server w cl' config = cl'\<lparr>client_logger := client_logger cl' @ l\<rparr>"
      "\<And>conn. \<not> connects w config conn"
  | (stdio) l conn where
      "initialize_server w cl config =
        cl\<lparr>stdioServers := AList.update (cfg_name config) conn (stdioServers cl),
           client_logger := client_logger cl @ l\<rparr>"
      "initialize_server w cl' config =
        cl'\<lparr>stdioServers := AList.update (cfg_name config) conn (stdioServers cl'),
            client_logger := client_logger cl' @ l\<rparr>"
      "connects w config conn" "\<And>c. connects w config c \<Longrightarrow> conn = c"
  | (http) l conn where
      "initialize_server w cl config =
        cl\<lparr>httpServers := AList.update (cfg_name config) conn (httpServers cl),
           client_logger := client_logger cl @ l\<rparr>"
      "initialize_server w cl' config =
        cl'\<lparr>httpServers := AList.update (cfg_name config) conn (httpServers cl'),
            client_logger := client_logger cl' @ l\<rparr>"
      "connects w config conn" "\<And>c. connects w config c \<Longrightarrow> conn = c"
proof (cases rule: initialize_try_at [of w cl config cl'])
  case (thrown e l)
  have "initialize_server w cl config = cl\<lparr>client_logger := client_logger cl @
      (l @ [ErrorLog (''Failed to initialize MCP server '' @ cfg_name config) (Some e)])\<rparr>"
    "initialize_server w cl' config = cl'\<lparr>client_logger := client_logger cl' @
      (l @ [ErrorLog (''Failed to initialize MCP server '' @ cfg_name config) (Some e)])\<rparr>"
    using thrown(1,2) by (simp_all add: initialize_server_def client_log_def)
  then show ?thesis using thrown(3) by (rule skipped)
next
  case (skipped l)
  have "initialize_server w cl config = cl\<lparr>client_logger := client_logger cl @ l\<rparr>"
    "initialize_server w cl' config = cl'\<lparr>client_logger := client_logger cl' @ l\<rparr>"
    using skipped(1,2) by (simp_all add: initialize_server_def)
  then show ?thesis using skipped(3) by (rule that(1))
next
  case (stdio l conn)
  have "initialize_server w cl config =
        cl\<lparr>stdioServers := AList.update (cfg_name config) conn (stdioServers cl),
           client_logger := client_logger cl @ l\<rparr>"
      "initialize_server w cl' config =
        cl'\<lparr>stdioServers := AList.update (cfg_name config) conn (stdioServers cl'),
            client_logger := client_logger cl' @ l\<rparr>"
    using stdio(1,2) by (simp_all add: initialize_server_def)
  then show ?thesis using stdio(3,4) by (rule that(2))
next
  case (http l conn)
  have "initialize_server w cl config =
        cl\<lparr>httpServers := AList.update (cfg_name config) conn (httpServers cl),
           client_logger := client_logger cl @ l\<rparr>"
      "initialize_server w cl' config =
        cl'\<lparr>httpServers := AList.update (cfg_name config) conn (httpServers cl'),
            client_logger := client_logger cl' @ l\<rparr>"
    using http(1,2) by (simp_all add: initialize_server_def)
  then show ?thesis using http(3,4) by (rule that(3))
qed


lemma initialize_server_unknown:
  assumes "cfg_transport config \<noteq> ''stdio''" "cfg_transport config \<noteq> ''http''"
  shows "initialize_server w cl config =
    client_log (ErrorLog (''Unknown transport type: '' @ cfg_transport config) None) cl"
  using assms by (simp add: initialize_server_def initialize_try_def)

lemma initialize_server_cong:
  assumes "forget_client_log cl1 = forget_client_log cl2"
  shows "forget_client_log (initialize_server w cl1 config) =
         forget_client_log (initialize_server w cl2 config)"
proof (cases rule: initialize_server_at [of w cl1 config cl2])
  case skipped
  from skipped(1,2) assms show ?thesis by (simp add: forget_client_log_eq)
next
  case stdio
  from stdio(1,2) assms show ?thesis by (simp add: forget_client_log_eq)
next
  case http
  from http(1,2) assms show ?thesis by (simp add: forget_client_log_eq)
qed

lemma initialize_loop_cong:
  "forget_client_log cl1 = forget_client_log cl2 \<Longrightarrow>
   forget_client_log (foldl (initialize_server w) cl1 configs) =
   forget_client_log (foldl (initialize_server w) cl2 configs)"
proof (induction configs arbitrary: cl1 cl2)
  case Nil
  then show ?case by simp
next
  case (Cons c cs)
  from Cons.IH [OF initialize_server_cong [OF Cons.prems]] show ?case by simp
qed

lemma initialize_loop_skip:
  assumes skip: "\<And>cl. forget_client_log (initialize_server w cl config) = forget_client_log cl"
    and eq: "forget_client_log cl1 = forget_client_log cl2"
  shows "forget_client_log (foldl (initialize_server w) cl1 (cs1 @ config # cs2)) =
         forget_client_log (foldl (initialize_server w) cl2 (cs1 @ cs2))"
proof -
  let ?a1 = "foldl (initialize_server w) cl1 cs1" and ?a2 = "foldl (initialize_server w) cl2 cs1"
  have "forget_client_log (initialize_server w ?a1 config) = forget_client_log ?a2"
    using skip [of ?a1] initialize_loop_cong [OF eq, of w cs1] by simp
  from initialize_loop_cong [OF this, of w cs2] show ?thesis by simp
qed

lemma discoverTools_cong:
  assumes "forget_client_log cl1 = forget_client_log cl2"
  shows "forget_client_log (snd (discoverTools cl1)) = forget_client_log (snd (discoverTools cl2))"
  using assms discoverTools_fields [of cl1] discoverTools_fields [of cl2]
  by (simp add: forget_client_log_eq)

lemma initialize_forget:
  "forget_client_log (initialize w cl configs) =
   forget_client_log (snd (discoverTools (foldl (initialize_server w) cl configs)))"
proof -
  let ?cl0 = "client_log (Info (''Initializing EnhancedMCPClient with '' @
     show_nat (length configs) @ '' servers'')) cl"
  have "forget_client_log ?cl0 = forget_client_log cl" by (simp add: forget_client_log_eq)
  from discoverTools_cong [OF initialize_loop_cong [OF this, of w configs]]
  show ?thesis by (simp add: initialize_def Let_def forget_client_log_eq)
qed

lemma initialize_skip:
  assumes "\<And>cl. forget_client_log (initialize_server w cl config) = forget_client_log cl"
  shows "forget_client_log (initialize w cl (cs1 @ config # cs2)) =
         forget_client_log (initialize w cl (cs1 @ cs2))"
  using discoverTools_cong [OF initialize_loop_skip [OF assms refl, of cl cs1 cs2]]
  by (simp add: initialize_forget)

lemma initialize_server_log:
  "\<exists>l. client_logger (initialize_server w cl config) = client_logger cl @ l"
proof (cases rule: initialize_server_at [of w cl config cl])
  case skipped
  from skipped(1) show ?thesis by simp
next
  case stdio
  from stdio(1) show ?thesis by simp
next
  case http
  from http(1) show ?thesis by simp
qed

lemma initialize_loop_log:
  "\<exists>l. client_logger (foldl (initialize_server w) cl configs) = client_logger cl @ l"
proof (induction configs arbitrary: cl)
  case Nil
  show ?case by simp
next
  case (Cons c cs)
  obtain l1 where a: "client_logger (initialize_server w cl c) = client_logger cl @ l1"
    using initialize_server_log by blast
  obtain l2 where "client_logger (foldl (initialize_server w) (initialize_server w cl c) cs) =
      client_logger (initialize_server w cl c) @ l2"
    using Cons by blast
  then show ?case using a by simp
qed

lemma initialize_logger:
  "client_logger (initialize w cl configs) =
     client_logger (foldl (initialize_server w)
        (client_log (Info (''Initializing EnhancedMCPClient with '' @
           show_nat (length configs) @ '' servers'')) cl) configs) @
     concat (map (discovery_lines ''stdio'') (stdioServers (initialize w cl configs))) @
     concat (map (discovery_lines ''HTTP'') (httpServers (initialize w cl configs))) @
     [Info (''Initialized '' @ show_nat (length (discoveredTools (initialize w cl configs))) @
        '' tools from MCP servers'')]"
  using discoverTools_fields [of "foldl (initialize_server w)
        (client_log (Info (''Initializing EnhancedMCPClient with '' @
           show_nat (length configs) @ '' servers'')) cl) configs"]
  by (simp add: initialize_def Let_def)

lemma initialize_keeps_log_of_loop:
  assumes "x \<in> set (client_logger (foldl (initialize_server w)
        (client_log (Info (''Initializing EnhancedMCPClient with '' @
           show_nat (length configs) @ '' servers'')) cl) configs))"
  shows "x \<in> set (client_logger (initialize w cl configs))"
  using assms by (simp add: initialize_logger [of w cl configs])

lemma loop_logs_entry:
  assumes "\<And>cl. x \<in> set (client_logger (initialize_server w cl config))"
  shows "x \<in> set (client_logger (foldl (initialize_server w) cl (cs1 @ config # cs2)))"
proof -
  let ?a = "foldl (initialize_server w) cl cs1"
  obtain l where "client_logger (foldl (initialize_server w) (initialize_server w ?a config) cs2) =
      client_logger (initialize_server w ?a config) @ l"
    using initialize_loop_log by blast
  then show ?thesis using assms [of ?a] by simp
qed












subsection \<open>A run of \<open>initialize\<close>\<close>

lemma digit_chars:
  "char_of (49::nat) = CHR ''1''" "char_of (50::nat) = CHR ''2''"
  "char_of (51::nat) = CHR ''3''" "char_of (52::nat) = CHR ''4''"
  by code_simp+

lemma show_nat_small:
  "show_nat (Suc 0) = ''1''" "show_nat (Suc (Suc 0)) = ''2''"
  "show_nat (Suc (Suc (Suc 0))) = ''3''" "show_nat (Suc (Suc (Suc (Suc 0)))) = ''4''"
  by (simp_all add: show_nat.simps digit_chars)

lemmas client_defs = initialize_def initialize_server_def initialize_try_def
  initializeStdioServer_def initializeHttpServer_def discoverTools_def
  discoverToolsFromConnections_def discover_from_def wrap_tool_def client_log_def
  new_EnhancedMCPClient_def flaky_world_def flaky_fetch_def search_server_def web_server_def
  search_tool_def broken_config_def down_config_def stdio_config_def http_config_def
  ftp_config_def Stdio_connect_def new_StdioMCPConnection_def log_add_def demo_child_def
  Http_connect_def Http_listTools_def httpRequest_def merged_headers_def demo_runtime_def
  during_def show_nat_small Let_def

lemma demo_initialize:
  "map w_name (discoveredTools
     (initialize flaky_world new_EnhancedMCPClient [stdio_config, http_config])) =
   [''mcp_A_search'', ''mcp_B_search'']"
  by (simp add: client_defs)



text \<open>
  Claim C2, as the code has it.  Discovery yields, for the stdio registry and then the
  HTTP registry, in the order of registration, one wrapper for each descriptor that a
  connection lists (none for a connection whose \<open>listTools\<close> fails); the wrapper of
  the tool \<open>T\<close> of the server \<open>S\<close> has the public name \<open>mcp_\<close>, \<open>S\<close>, an
  underscore, and the name of \<open>T\<close>.
\<close>

theorem discovery_namespaces_tools:
  "fst (discoverTools cl) = concat (map tools_of (stdioServers cl @ httpServers cl)) \<and>
   discoveredTools (snd (discoverTools cl)) = fst (discoverTools cl) \<and>
   ((S, conn) \<in> set (stdioServers cl @ httpServers cl) \<and> conn_listTools conn = Inr tools \<and>
    T \<in> set tools \<longrightarrow>
      wrap_tool S T \<in> set (fst (discoverTools cl)) \<and>
      w_name (wrap_tool S T) = ''mcp_'' @ S @ ''_'' @ d_name T \<and>
      w_serverName (wrap_tool S T) = S \<and> w_toolName (wrap_tool S T) = d_name T)"
proof (intro conjI impI)
  show a: "fst (discoverTools cl) = concat (map tools_of (stdioServers cl @ httpServers cl))"
    using discoverTools_fields [of cl] by simp
  show "discoveredTools (snd (discoverTools cl)) = fst (discoverTools cl)"
    using discoverTools_fields [of cl] by simp
  assume h: "(S, conn) \<in> set (stdioServers cl @ httpServers cl) \<and>
    conn_listTools conn = Inr tools \<and> T \<in> set tools"
  then have m: "(S, conn) \<in> set (stdioServers cl @ httpServers cl)" by blast
  from h have "wrap_tool S T \<in> set (tools_of (S, conn))" by (simp add: tools_of_def)
  then show "wrap_tool S T \<in> set (fst (discoverTools cl))"
    unfolding a by (rule in_concat_map [OF m])
qed (simp_all add: wrap_tool_def)

theorem discovery_namespaces_tools_witness:
  "wrap_tool ''A'' search_tool \<in> set (fst (discoverTools two_servers)) \<and>
   w_name (wrap_tool ''A'' search_tool) = ''mcp_A_search''"
proof -
  have h: "(''A'', search_server) \<in> set (stdioServers two_servers @ httpServers two_servers) \<and>
    conn_listTools search_server = Inr [search_tool] \<and> search_tool \<in> set [search_tool]"
    by (simp add: two_servers_def search_server_def)
  note t = discovery_namespaces_tools [of two_servers "''A''" search_server "[search_tool]"
      search_tool]
  have c: "wrap_tool ''A'' search_tool \<in> set (fst (discoverTools two_servers)) \<and>
      w_name (wrap_tool ''A'' search_tool) = ''mcp_'' @ ''A'' @ ''_'' @ d_name search_tool \<and>
      w_serverName (wrap_tool ''A'' search_tool) = ''A'' \<and>
      w_toolName (wrap_tool ''A'' search_tool) = d_name search_tool"
    by (rule mp [OF conjunct2 [OF conjunct2 [OF t]] h])
  then show ?thesis by (simp add: search_tool_def)
qed

text \<open>
  Against claim C2 as stated: with the servers \<open>A\<close> and \<open>B\<close> each listing a tool
  \<open>search\<close>, the tools discovered are named \<open>mcp_A_search\<close> and \<open>mcp_B_search\<close>;
  neither \<open>A_search\<close> nor \<open>B_search\<close> is among them.
\<close>

theorem discovery_names_counterexample:
  "map w_name (fst (discoverTools two_servers)) = [''mcp_A_search'', ''mcp_B_search''] \<and>
   ''A_search'' \<notin> set (map w_name (fst (discoverTools two_servers))) \<and>
   ''B_search'' \<notin> set (map w_name (fst (discoverTools two_servers)))"
proof -
  have "map w_name (fst (discoverTools two_servers)) = [''mcp_A_search'', ''mcp_B_search'']"
    using discoverTools_fields [of two_servers]
    by (simp add: two_servers_def search_server_def search_tool_def tools_of_def wrap_tool_def)
  then show ?thesis by simp
qed

text \<open>
  Claim C1, as the code has it.  \<open>callTool\<close> of the client throws the not-found error
  when neither registry has the server name.  When a connection is registered under the
  name (the stdio registry is looked up first), it never throws: it returns what the
  connection's \<open>callTool\<close> returns, and an error thrown by the connection's tool call
  comes back as a result of status error whose content is
  \<open>Tool execution failed: \<close> followed by the error's message.
\<close>

theorem callTool_boundary:
  "(map_of (stdioServers cl) serverName = None \<and> map_of (httpServers cl) serverName = None \<longrightarrow>
      fst (callTool cl serverName toolName args) =
        Inl (Error (''MCP server '' @ quoted serverName @ '' not found''))) \<and>
   (map_of (stdioServers cl) serverName = Some conn \<or>
    map_of (stdioServers cl) serverName = None \<and> map_of (httpServers cl) serverName = Some conn \<longrightarrow>
      fst (callTool cl serverName toolName args) =
        Inr (callTool_catch (conn_callToolImpl conn toolName args)) \<and>
      (\<forall>e. conn_callToolImpl conn toolName args = Inl e \<longrightarrow>
         fst (callTool cl serverName toolName args) =
           Inr \<lparr>status = failure, content = ''Tool execution failed: '' @ message e,
                metadata = None\<rparr>))"
  by (auto simp: callTool_def connection_callTool_def Let_def errorResult_def)

theorem callTool_boundary_witness:
  "fst (callTool two_servers ''B'' ''search'' Null) =
     Inr \<lparr>status = failure, content = ''Tool execution failed: connection reset'',
          metadata = None\<rparr>"
proof -
  have "map_of (stdioServers two_servers) ''B'' = None \<and>
        map_of (httpServers two_servers) ''B'' = Some search_server"
    by (simp add: two_servers_def)
  moreover have "conn_callToolImpl search_server ''search'' Null = Inl (Error ''connection reset'')"
    by (simp add: search_server_def)
  ultimately show ?thesis
    using callTool_boundary [of two_servers "''B''" "''search''" Null search_server]
    by (simp add: errorResult_def)
qed

text \<open>
  Against claim C1 as stated: on a client with no connections, \<open>callTool\<close> throws.
\<close>

theorem callTool_not_found_counterexample:
  "fst (callTool new_EnhancedMCPClient ''files'' ''read'' Null) =
     Inl (Error (''MCP server '' @ quoted ''files'' @ '' not found''))"
  by (simp add: callTool_def new_EnhancedMCPClient_def)




text \<open>
  Claim C10.  For a configuration whose transport is neither \<open>stdio\<close> nor \<open>http\<close>,
  the \<open>try\<close> block throws nothing and logs the unknown transport; no connection is
  registered; and the client ends, but for its log, as if the configuration had not been
  in the list.
\<close>

theorem unknown_transport_is_skipped:
  "cfg_transport config \<noteq> ''stdio'' \<and> cfg_transport config \<noteq> ''http'' \<longrightarrow>
     initialize_try w cl config =
       (Inr (), client_log (ErrorLog (''Unknown transport type: '' @ cfg_transport config) None) cl) \<and>
     servers (initialize_server w cl config) = servers cl \<and>
     forget_client_log (initialize w cl (cs1 @ config # cs2)) =
       forget_client_log (initialize w cl (cs1 @ cs2)) \<and>
     ErrorLog (''Unknown transport type: '' @ cfg_transport config) None
       \<in> set (client_logger (initialize w cl (cs1 @ config # cs2)))"
proof (intro impI conjI)
  assume h: "cfg_transport config \<noteq> ''stdio'' \<and> cfg_transport config \<noteq> ''http''"
  then have a: "cfg_transport config \<noteq> ''stdio''" and b: "cfg_transport config \<noteq> ''http''"
    by simp_all
  note u = initialize_server_unknown [OF a b]
  show "initialize_try w cl config =
       (Inr (), client_log (ErrorLog (''Unknown transport type: '' @ cfg_transport config) None) cl)"
    using a b by (simp add: initialize_try_def)
  show "servers (initialize_server w cl config) = servers cl"
    by (simp add: u servers_def)
  have skip: "\<And>cl. forget_client_log (initialize_server w cl config) = forget_client_log cl"
    by (simp add: u forget_client_log_eq)
  show "forget_client_log (initialize w cl (cs1 @ config # cs2)) =
        forget_client_log (initialize w cl (cs1 @ cs2))"
    by (rule initialize_skip [OF skip])
  have "\<And>cl. ErrorLog (''Unknown transport type: '' @ cfg_transport config) None
      \<in> set (client_logger (initialize_server w cl config))"
    by (simp add: u)
  from loop_logs_entry [OF this]
  show "ErrorLog (''Unknown transport type: '' @ cfg_transport config) None
        \<in> set (client_logger (initialize w cl (cs1 @ config # cs2)))"
    by (rule initialize_keeps_log_of_loop)
qed


theorem unknown_transport_is_skipped_witness:
  "forget_client_log
     (initialize flaky_world new_EnhancedMCPClient [stdio_config, ftp_config, http_config]) =
   forget_client_log (initialize flaky_world new_EnhancedMCPClient [stdio_config, http_config]) \<and>
   ErrorLog ''Unknown transport type: ftp'' None
     \<in> set (client_logger
         (initialize flaky_world new_EnhancedMCPClient [stdio_config, ftp_config, http_config]))"
proof -
  have h: "cfg_transport ftp_config \<noteq> ''stdio'' \<and> cfg_transport ftp_config \<noteq> ''http''"
    by (simp add: ftp_config_def)
  note t = unknown_transport_is_skipped [of ftp_config flaky_world new_EnhancedMCPClient
      "[stdio_config]" "[http_config]"]
  note t1 = mp [OF t h]
  have a: "forget_client_log
          (initialize flaky_world new_EnhancedMCPClient ([stdio_config] @ ftp_config # [http_config])) =
        forget_client_log
          (initialize flaky_world new_EnhancedMCPClient ([stdio_config] @ [http_config]))"
    by (rule conjunct1 [OF conjunct2 [OF conjunct2 [OF t1]]])
  have b: "ErrorLog (''Unknown transport type: '' @ cfg_transport ftp_config) None
            \<in> set (client_logger
                (initialize flaky_world new_EnhancedMCPClient
                   ([stdio_config] @ ftp_config # [http_config])))"
    by (rule conjunct2 [OF conjunct2 [OF conjunct2 [OF t1]]])
  from b have b': "ErrorLog ''Unknown transport type: ftp'' None
            \<in> set (client_logger
                (initialize flaky_world new_EnhancedMCPClient
                   ([stdio_config] @ ftp_config # [http_config])))"
    by (simp add: ftp_config_def)
  show ?thesis using a b' by simp
qed

end
